theory Spec2Isabelle
  imports Complex_Main "HOL-Library.Log_Nat"
begin

section \<open>Tech Innovation Hub intern management: the embedding of techhub.js\<close>

text \<open>
  The two classes of \<^verbatim>\<open>src/techhub.js\<close>, \<^verbatim>\<open>Attachee\<close> and \<^verbatim>\<open>TaskManager\<close>, as
  records with explicit state passing: a method takes the object and returns the object
  after the call (and its return value, when it has one).

  Conventions of the embedding.
  \<^item> A JavaScript number is an IEEE double: a value of the type \<open>number\<close> is finite, an
    infinity or NaN, and the sum and the quotient of two numbers are rounded to the
    nearest double, the even one at a tie (\<open>binary64\<close>). The sign of zero is left out;
    the program only adds, divides by an array length or a count, rounds and compares.
    An array length, a count and a task id are exact: \<open>nat\<close> and \<open>int\<close>. The score
    of a feedback entry is an integer, as the documentation of \<^verbatim>\<open>addFeedback\<close> has it
    (0-100), and it enters the arithmetic as the number \<open>num\<close> of that value (an integer
    that no double holds is not a value that the program can receive); a priority is
    an integer too.
  \<^item> \<^verbatim>\<open>Array.prototype.find\<close> returns a reference to the first element that
    satisfies the predicate. The reference is the element's index in the array
    (\<open>find_ref\<close>), and a write through the reference is a list update at that index.
    Every object of the program is created fresh (\<^verbatim>\<open>assignTask\<close> builds the task,
    \<^verbatim>\<open>addAttachee\<close> the attachee), so no two array slots share an object.
  \<^item> \<^verbatim>\<open>throw\<close> is the left injection of a sum.
  \<^item> \<^verbatim>\<open>new Date().toISOString()\<close> reads the clock; the reading is an argument
    (\<open>now\<close>) of the method that takes it.
\<close>

subsection \<open>JavaScript numbers\<close>

datatype number = Fin real | PosInf | NegInf | NaN

text \<open>The number with an integer value, as a literal such as \<^verbatim>\<open>0\<close> or \<^verbatim>\<open>100\<close> denotes it.\<close>

definition num :: "int \<Rightarrow> number" where
  "num k = Fin (of_int k)"

text \<open>Rounding to the nearest integer, to the even one at a tie.\<close>

definition round_half_even :: "real \<Rightarrow> int" where
  "round_half_even y =
     (let f = \<lfloor>y\<rfloor> in
      if y - of_int f < 1 / 2 then f
      else if 1 / 2 < y - of_int f then f + 1
      else if even f then f else f + 1)"

text \<open>
  The binary exponent of a number other than 0, the \<open>e\<close> with \<open>2^e \<le> |x| < 2^(e+1)\<close>: it
  is read off the number of bits of the integer part of \<open>|x|\<close>, or of its reciprocal
  when \<open>|x| < 1\<close>.
\<close>

definition exponent :: "real \<Rightarrow> int" where
  "exponent x =
     (if 1 \<le> \<bar>x\<bar> then bitlen \<lfloor>\<bar>x\<bar>\<rfloor> - 1 else - bitlen (\<lceil>1 / \<bar>x\<bar>\<rceil> - 1))"

definition pow2 :: "int \<Rightarrow> real" where
  "pow2 k = (if 0 \<le> k then 2 ^ nat k else 1 / 2 ^ nat (- k))"

text \<open>
  The distance between the doubles around \<open>x\<close>: a double has 53 significant bits, so for
  \<open>2^e \<le> |x| < 2^(e+1)\<close> the doubles are the multiples of \<open>2^(e-52)\<close>, and of \<open>2^(-1074)\<close>
  below the normal range.
\<close>

definition quantum :: "real \<Rightarrow> real" where
  "quantum x = pow2 (max (exponent x - 52) (- 1074))"

text \<open>
  The double that an operation with the exact result \<open>x\<close> returns: the nearest multiple
  of the quantum, and an infinity when that is \<open>2^1024\<close> or more in magnitude.
\<close>

definition binary64 :: "real \<Rightarrow> number" where
  "binary64 x =
     (if x = 0 then Fin 0
      else
        let r = of_int (round_half_even (x / quantum x)) * quantum x
        in if 2 ^ 1024 \<le> r then PosInf
           else if r \<le> - (2 ^ 1024) then NegInf
           else Fin r)"

text \<open>The operators \<^verbatim>\<open>+\<close>, \<^verbatim>\<open>/\<close>, \<^verbatim>\<open><\<close> and \<^verbatim>\<open>>\<close> on numbers.\<close>

fun js_add :: "number \<Rightarrow> number \<Rightarrow> number" where
  "js_add (Fin a) (Fin b) = binary64 (a + b)"
| "js_add NaN y = NaN"
| "js_add x NaN = NaN"
| "js_add PosInf NegInf = NaN"
| "js_add NegInf PosInf = NaN"
| "js_add PosInf y = PosInf"
| "js_add x PosInf = PosInf"
| "js_add NegInf y = NegInf"
| "js_add x NegInf = NegInf"

fun js_div :: "number \<Rightarrow> number \<Rightarrow> number" where
  "js_div NaN y = NaN"
| "js_div x NaN = NaN"
| "js_div (Fin a) (Fin b) =
     (if b = 0 then (if a = 0 then NaN else if 0 < a then PosInf else NegInf)
      else binary64 (a / b))"
| "js_div (Fin a) y = Fin 0"
| "js_div PosInf (Fin b) = (if 0 \<le> b then PosInf else NegInf)"
| "js_div NegInf (Fin b) = (if 0 \<le> b then NegInf else PosInf)"
| "js_div x y = NaN"

fun js_less :: "number \<Rightarrow> number \<Rightarrow> bool" where
  "js_less NaN y = False"
| "js_less x NaN = False"
| "js_less (Fin a) (Fin b) = (a < b)"
| "js_less x NegInf = False"
| "js_less PosInf y = False"
| "js_less x y = True"

definition js_greater :: "number \<Rightarrow> number \<Rightarrow> bool" where
  "js_greater x y = js_less y x"

subsection \<open>JavaScript library functions the program calls\<close>

datatype error = Error string | TypeError

text \<open>\<^verbatim>\<open>Math.round\<close>: the nearest integer, the larger one at a tie.\<close>

fun Math_round :: "number \<Rightarrow> number" where
  "Math_round (Fin x) = Fin (of_int \<lfloor>x + 1 / 2\<rfloor>)"
| "Math_round x = x"

text \<open>\<^verbatim>\<open>Array.prototype.join\<close> on an array of strings.\<close>

fun join :: "string list \<Rightarrow> string \<Rightarrow> string" where
  "join [] sep = []"
| "join [x] sep = x"
| "join (x # y # ys) sep = x @ sep @ join (y # ys) sep"

text \<open>\<^verbatim>\<open>Array.prototype.find\<close>, as the index of the element it returns.\<close>

fun find_ref :: "('a \<Rightarrow> bool) \<Rightarrow> 'a list \<Rightarrow> nat option" where
  "find_ref P [] = None"
| "find_ref P (x # xs) =
     (if P x then Some 0 else map_option Suc (find_ref P xs))"

subsection \<open>The class Attachee\<close>

record task =
  id_t :: int
  description :: string
  deadline :: string
  priority :: int
  completed :: bool
  completionDate :: "string option"

record feedback_entry =
  text_f :: string
  score :: int
  reviewer :: string
  date :: string

record attachee =
  name :: string
  email :: string
  division :: string
  tasks :: "task list"
  feedback :: "feedback_entry list"
  performanceScore :: number

record summary =
  name_s :: string
  division_s :: string
  performanceScore_s :: number
  tasksAssigned :: nat
  tasksCompleted :: nat
  tasksPending :: nat
  feedbackCount :: nat

definition validDivisions :: "string list" where
  "validDivisions = [''Engineering'', ''Tech Programs'', ''Radio Support'', ''Hub Support'']"

definition validateDivision :: "string \<Rightarrow> error + string" where
  "validateDivision d =
     (if d \<notin> set validDivisions
      then Inl (Error (''Invalid division. Must be one of: '' @ join validDivisions '', ''))
      else Inr d)"

text \<open>The constructor: \<^verbatim>\<open>new Attachee(name, email, division)\<close>.\<close>

definition new_Attachee :: "string \<Rightarrow> string \<Rightarrow> string \<Rightarrow> error + attachee" where
  "new_Attachee n e d =
     (case validateDivision d of
        Inl err \<Rightarrow> Inl err
      | Inr d' \<Rightarrow>
          Inr \<lparr>name = n, email = e, division = d', tasks = [], feedback = [],
               performanceScore = num 0\<rparr>)"

definition assignTask :: "attachee \<Rightarrow> string \<Rightarrow> string \<Rightarrow> int \<Rightarrow> attachee" where
  "assignTask a taskDescription dl prio =
     (let newTask = \<lparr>id_t = int (length (tasks a)) + 1, description = taskDescription,
                      deadline = dl, priority = prio, completed = False,
                      completionDate = None\<rparr>
      in a\<lparr>tasks := tasks a @ [newTask]\<rparr>)"

definition completeTask :: "attachee \<Rightarrow> int \<Rightarrow> string \<Rightarrow> attachee" where
  "completeTask a taskId cd =
     (case find_ref (\<lambda>t. id_t t = taskId) (tasks a) of
        None \<Rightarrow> a
      | Some i \<Rightarrow>
          a\<lparr>tasks := (tasks a)[i := (tasks a ! i)\<lparr>completed := True,
                                                  completionDate := Some cd\<rparr>]\<rparr>)"

definition calculatePerformanceScore :: "attachee \<Rightarrow> attachee" where
  "calculatePerformanceScore a =
     (if length (feedback a) = 0 then a
      else
        let total = foldl (\<lambda>sum entry. js_add sum (num (score entry))) (num 0) (feedback a)
        in a\<lparr>performanceScore :=
               Math_round (js_div total (num (int (length (feedback a)))))\<rparr>)"

definition addFeedback :: "attachee \<Rightarrow> string \<Rightarrow> int \<Rightarrow> string \<Rightarrow> string \<Rightarrow> attachee" where
  "addFeedback a feedbackText sc rv now =
     calculatePerformanceScore
       (a\<lparr>feedback := feedback a @
            [\<lparr>text_f = feedbackText, score = sc, reviewer = rv, date = now\<rparr>]\<rparr>)"

text \<open>
  \<^verbatim>\<open>getPerformanceSummary\<close> returns the summary; the second component is the object
  after the call.
\<close>

definition getPerformanceSummary :: "attachee \<Rightarrow> summary \<times> attachee" where
  "getPerformanceSummary a =
     (let completedTasks = length (filter (\<lambda>t. completed t) (tasks a));
          pendingTasks = length (tasks a) - completedTasks
      in (\<lparr>name_s = name a, division_s = division a,
           performanceScore_s = performanceScore a,
           tasksAssigned = length (tasks a), tasksCompleted = completedTasks,
           tasksPending = pendingTasks, feedbackCount = length (feedback a)\<rparr>, a))"

text \<open>
  The public operations of an Attachee as a sequence of calls: \<open>run_calls a cs\<close> is the
  object after the calls \<open>cs\<close>, made in order on \<open>a\<close>.
\<close>

datatype call =
    AssignTask string string int
  | CompleteTask int string
  | AddFeedback string int string string
  | CalculatePerformanceScore
  | GetPerformanceSummary

fun do_call :: "attachee \<Rightarrow> call \<Rightarrow> attachee" where
  "do_call a (AssignTask taskDescription dl prio) = assignTask a taskDescription dl prio"
| "do_call a (CompleteTask taskId cd) = completeTask a taskId cd"
| "do_call a (AddFeedback feedbackText sc rv now) = addFeedback a feedbackText sc rv now"
| "do_call a CalculatePerformanceScore = calculatePerformanceScore a"
| "do_call a GetPerformanceSummary = snd (getPerformanceSummary a)"

fun run_calls :: "attachee \<Rightarrow> call list \<Rightarrow> attachee" where
  "run_calls a [] = a"
| "run_calls a (c # cs) = run_calls (do_call a c) cs"

fun is_AssignTask :: "call \<Rightarrow> bool" where
  "is_AssignTask (AssignTask taskDescription dl prio) = True"
| "is_AssignTask c = False"

subsection \<open>The class TaskManager\<close>

record taskManager =
  attachees :: "attachee list"

definition new_TaskManager :: taskManager where
  "new_TaskManager = \<lparr>attachees = []\<rparr>"

text \<open>
  \<^verbatim>\<open>addAttachee\<close> returns the new attachee or throws; the second component is the
  manager after the call, also when the constructor has thrown.
\<close>

definition addAttachee ::
  "taskManager \<Rightarrow> string \<Rightarrow> string \<Rightarrow> string \<Rightarrow> (error + attachee) \<times> taskManager" where
  "addAttachee m n e d =
     (case new_Attachee n e d of
        Inl err \<Rightarrow> (Inl err, m)
      | Inr newAttachee \<Rightarrow>
          (Inr newAttachee, m\<lparr>attachees := attachees m @ [newAttachee]\<rparr>))"

definition removeAttachee :: "taskManager \<Rightarrow> string \<Rightarrow> taskManager" where
  "removeAttachee m e = m\<lparr>attachees := filter (\<lambda>a. email a \<noteq> e) (attachees m)\<rparr>"

definition getAttacheesByDivision :: "taskManager \<Rightarrow> string \<Rightarrow> attachee list" where
  "getAttacheesByDivision m d = filter (\<lambda>a. division a = d) (attachees m)"

text \<open>
  \<^verbatim>\<open>assignTaskToDivision\<close>: the array that \<^verbatim>\<open>getAttacheesByDivision\<close> returns holds
  references to the roster's own objects, so the \<^verbatim>\<open>forEach\<close> assigns the task to every
  roster entry of the division, in place, and leaves the others as they are.
\<close>

definition assignTaskToDivision ::
  "taskManager \<Rightarrow> string \<Rightarrow> string \<Rightarrow> string \<Rightarrow> int \<Rightarrow> taskManager" where
  "assignTaskToDivision m d taskDescription dl prio =
     m\<lparr>attachees :=
         map (\<lambda>a. if division a = d then assignTask a taskDescription dl prio else a)
           (attachees m)\<rparr>"

definition assignTaskToAttachee ::
  "taskManager \<Rightarrow> string \<Rightarrow> string \<Rightarrow> string \<Rightarrow> int \<Rightarrow> taskManager" where
  "assignTaskToAttachee m e taskDescription dl prio =
     (case find_ref (\<lambda>a. email a = e) (attachees m) of
        None \<Rightarrow> m
      | Some i \<Rightarrow>
          m\<lparr>attachees :=
              (attachees m)[i := assignTask (attachees m ! i) taskDescription dl prio]\<rparr>)"

definition addFeedbackToAttachee ::
  "taskManager \<Rightarrow> string \<Rightarrow> string \<Rightarrow> int \<Rightarrow> string \<Rightarrow> string \<Rightarrow> taskManager" where
  "addFeedbackToAttachee m e feedbackText sc rv now =
     (case find_ref (\<lambda>a. email a = e) (attachees m) of
        None \<Rightarrow> m
      | Some i \<Rightarrow>
          m\<lparr>attachees :=
              (attachees m)[i := addFeedback (attachees m ! i) feedbackText sc rv now]\<rparr>)"

subsubsection \<open>generatePerformanceReport\<close>

text \<open>
  The report object: the four division keys with their arrays (\<open>divisions\<close>, a map from
  the key to the array) and the key \<^verbatim>\<open>overallStats\<close>. \<^verbatim>\<open>report[attachee.division].push\<close>
  throws a TypeError when the key is none of the four, since then the value is not an
  array.
\<close>

record overall_stats =
  totalAttachees :: nat
  averageScore :: number
  highestScore :: number
  lowestScore :: number

record report =
  divisions :: "string \<rightharpoonup> summary list"
  overallStats :: overall_stats

text \<open>The variables of the loop: \<^verbatim>\<open>report\<close>, \<^verbatim>\<open>totalScore\<close> and \<^verbatim>\<open>count\<close>.\<close>

record loop_vars =
  report_v :: report
  totalScore :: number
  count_v :: nat

definition initial_report :: "taskManager \<Rightarrow> report" where
  "initial_report m =
     \<lparr>divisions = [''Engineering'' \<mapsto> [], ''Tech Programs'' \<mapsto> [],
                    ''Radio Support'' \<mapsto> [], ''Hub Support'' \<mapsto> []],
      overallStats = \<lparr>totalAttachees = length (attachees m), averageScore = num 0,
                       highestScore = num 0, lowestScore = num 100\<rparr>\<rparr>"

text \<open>The body of the \<^verbatim>\<open>forEach\<close>, for one attachee.\<close>

definition report_step :: "loop_vars \<Rightarrow> attachee \<Rightarrow> error + loop_vars" where
  "report_step v a =
     (let smry = fst (getPerformanceSummary a) in
      case divisions (report_v v) (division a) of
        None \<Rightarrow> Inl TypeError
      | Some arr \<Rightarrow>
          let r1 = (report_v v)\<lparr>divisions := (divisions (report_v v))(division a \<mapsto> arr @ [smry])\<rparr>;
              totalScore' = js_add (totalScore v) (performanceScore_s smry);
              count' = count_v v + 1;
              r2 = (if js_greater (performanceScore_s smry) (highestScore (overallStats r1))
                    then r1\<lparr>overallStats := (overallStats r1)\<lparr>highestScore := performanceScore_s smry\<rparr>\<rparr>
                    else r1);
              r3 = (if js_less (performanceScore_s smry) (lowestScore (overallStats r2))
                    then r2\<lparr>overallStats := (overallStats r2)\<lparr>lowestScore := performanceScore_s smry\<rparr>\<rparr>
                    else r2)
          in Inr \<lparr>report_v = r3, totalScore = totalScore', count_v = count'\<rparr>)"

fun report_loop :: "loop_vars \<Rightarrow> attachee list \<Rightarrow> error + loop_vars" where
  "report_loop v [] = Inr v"
| "report_loop v (a # as) =
     (case report_step v a of Inl err \<Rightarrow> Inl err | Inr v' \<Rightarrow> report_loop v' as)"

definition generatePerformanceReport :: "taskManager \<Rightarrow> error + report" where
  "generatePerformanceReport m =
     (case report_loop \<lparr>report_v = initial_report m, totalScore = num 0, count_v = 0\<rparr>
             (attachees m) of
        Inl err \<Rightarrow> Inl err
      | Inr v \<Rightarrow>
          let r = report_v v in
          if count_v v > 0
          then Inr (r\<lparr>overallStats := (overallStats r)
                     \<lparr>averageScore :=
                        Math_round (js_div (totalScore v) (num (int (count_v v))))\<rparr>\<rparr>)
          else Inr (r\<lparr>overallStats := (overallStats r)
                     \<lparr>averageScore := num 0, highestScore := num 0,
                      lowestScore := num 0\<rparr>\<rparr>))"

text \<open>
  The calls that change a TaskManager, as a sequence. \<open>OnAttachee i c\<close> is the call \<open>c\<close>
  made directly on the \<open>i\<close>-th object of \<^verbatim>\<open>attachees\<close>, as the example at the end of
  the file does with \<^verbatim>\<open>completeTask\<close>; a failed \<^verbatim>\<open>addAttachee\<close> leaves the manager to
  the caller as it is. The reading methods \<^verbatim>\<open>getAttacheesByDivision\<close> and
  \<^verbatim>\<open>generatePerformanceReport\<close> assign to no field and are not listed.
\<close>

datatype tm_call =
    AddAttachee string string string
  | RemoveAttachee string
  | AssignTaskToDivision string string string int
  | AssignTaskToAttachee string string string int
  | AddFeedbackToAttachee string string int string string
  | OnAttachee nat call

fun do_tm_call :: "taskManager \<Rightarrow> tm_call \<Rightarrow> taskManager" where
  "do_tm_call m (AddAttachee n e d) = snd (addAttachee m n e d)"
| "do_tm_call m (RemoveAttachee e) = removeAttachee m e"
| "do_tm_call m (AssignTaskToDivision d taskDescription dl prio) =
     assignTaskToDivision m d taskDescription dl prio"
| "do_tm_call m (AssignTaskToAttachee e taskDescription dl prio) =
     assignTaskToAttachee m e taskDescription dl prio"
| "do_tm_call m (AddFeedbackToAttachee e feedbackText sc rv now) =
     addFeedbackToAttachee m e feedbackText sc rv now"
| "do_tm_call m (OnAttachee i c) =
     (if i < length (attachees m)
      then m\<lparr>attachees := (attachees m)[i := do_call (attachees m ! i) c]\<rparr>
      else m)"

fun run_tm_calls :: "taskManager \<Rightarrow> tm_call list \<Rightarrow> taskManager" where
  "run_tm_calls m [] = m"
| "run_tm_calls m (c # cs) = run_tm_calls (do_tm_call m c) cs"

subsection \<open>The notions of the specification\<close>

text \<open>
  Rounding to the nearest integer with halves going up, written from the fractional
  part: below a half the number goes down to its floor, from a half on it goes up.
\<close>

definition round_half_up :: "real \<Rightarrow> int" where
  "round_half_up x = (if x - real_of_int \<lfloor>x\<rfloor> < 1 / 2 then \<lfloor>x\<rfloor> else \<lfloor>x\<rfloor> + 1)"

text \<open>The arithmetic mean of a list of integers, for a list that is not empty.\<close>

definition mean :: "int list \<Rightarrow> real" where
  "mean xs = real_of_int (sum_list xs) / real (length xs)"

text \<open>The summary that \<^verbatim>\<open>getPerformanceSummary\<close> returns.\<close>

definition summary_of :: "attachee \<Rightarrow> summary" where
  "summary_of a = fst (getPerformanceSummary a)"

text \<open>
  The scores of the data model: integers from 0 to 100, the range that the documentation
  of \<^verbatim>\<open>addFeedback\<close> and of \<^verbatim>\<open>performanceScore\<close> gives. The list is the content of a
  JavaScript array, which has fewer than \<open>2^32\<close> elements.
\<close>

definition scores_in_range :: "int list \<Rightarrow> bool" where
  "scores_in_range ps \<longleftrightarrow> (\<forall>p \<in> set ps. 0 \<le> p \<and> p \<le> 100) \<and> length ps < 2 ^ 32"

definition feedback_in_range :: "feedback_entry list \<Rightarrow> bool" where
  "feedback_in_range fb \<longleftrightarrow> scores_in_range (map score fb)"

text \<open>The invariant that ties the score of an attachee to its feedback.\<close>

definition score_ok :: "attachee \<Rightarrow> bool" where
  "score_ok a \<longleftrightarrow>
     performanceScore a =
       (if feedback a = [] then num 0
        else num (round_half_up (mean (map score (feedback a)))))"

text \<open>The ids of the tasks of an attachee are 1, 2, ... in the order of the array.\<close>

definition ids_dense :: "attachee \<Rightarrow> bool" where
  "ids_dense a \<longleftrightarrow> map id_t (tasks a) = [1..int (length (tasks a))]"

definition roster_dense :: "taskManager \<Rightarrow> bool" where
  "roster_dense m \<longleftrightarrow> list_all ids_dense (attachees m)"

text \<open>Every attachee of the roster has one of the four divisions.\<close>

definition roster_valid :: "taskManager \<Rightarrow> bool" where
  "roster_valid m \<longleftrightarrow> list_all (\<lambda>a. division a \<in> set validDivisions) (attachees m)"

text \<open>The \<^verbatim>\<open>overallStats\<close> of the report, or the error of the call.\<close>

definition stats_of :: "taskManager \<Rightarrow> error + overall_stats" where
  "stats_of m = map_sum id overallStats (generatePerformanceReport m)"

subsection \<open>The example at the end of the file\<close>

text \<open>
  \<^verbatim>\<open>hubManager\<close> after the calls of the section \<^verbatim>\<open>Example Usage\<close>, up to the call that
  prints the report. The arguments are the three readings of the clock.
  \<^verbatim>\<open>hubManager.attachees.find\<close> returns the first object of the roster there.
\<close>

definition hubManager :: "string \<Rightarrow> string \<Rightarrow> string \<Rightarrow> taskManager" where
  "hubManager now1 now2 now3 =
     run_tm_calls new_TaskManager
       [AddAttachee ''Omar Haitham'' ''omarhaitham@example.com'' ''Engineering'',
        AddAttachee ''Martin John'' ''martin@example.com'' ''Engineering'',
        AddAttachee ''Mary Brown'' ''maryb@example.com'' ''Tech Programs'',
        AddAttachee ''Diana Charles'' ''diana@example.com'' ''Radio Support'',
        AddAttachee ''Cynthia Adams'' ''cyadams@example.com'' ''Hub Support'',
        AssignTaskToDivision ''Engineering'' ''Develop API endpoint for user management''
          ''2023-06-15'' 4,
        AssignTaskToAttachee ''omarhaitham@example.com'' ''Review code quality standards''
          ''2023-06-10'' 3,
        AssignTaskToAttachee ''martin@example.com'' ''Optimize database queries''
          ''2023-06-12'' 5,
        OnAttachee 0 (CompleteTask 1 ''2023-06-08''),
        OnAttachee 0 (CompleteTask 2 ''2023-06-09''),
        AddFeedbackToAttachee ''omarhaitham@example.com''
          ''Excellent work on the API development!'' 95 ''Supervisor A'' now1,
        AddFeedbackToAttachee ''martin@example.com''
          ''Good progress, needs more attention to detail'' 82 ''Supervisor B'' now2,
        AddFeedbackToAttachee ''maryb@example.com''
          ''Outstanding contribution to the tech program'' 98 ''Supervisor C'' now3]"

section \<open>Properties\<close>

subsection \<open>Doubles\<close>

text \<open>
  The exponent is the floor of the binary logarithm, and the quantum the power of two
  that belongs to it.
\<close>

lemma pow2_powr: "pow2 k = 2 powr of_int k"
proof (cases "0 \<le> k")
  case True
  then show ?thesis
    by (simp add: pow2_def powr_realpow [symmetric])
next
  case False
  then have "(2 :: real) powr of_int k = 1 / 2 powr of_int (- k)"
    by (simp add: powr_minus_divide)
  also have "\<dots> = 1 / 2 ^ nat (- k)"
    using False by (simp add: powr_realpow [symmetric])
  finally show ?thesis
    using False by (simp add: pow2_def)
qed

lemma floor_log_int_part:
  assumes "1 \<le> y"
  shows "\<lfloor>log 2 (of_int \<lfloor>y\<rfloor>)\<rfloor> = \<lfloor>log 2 y\<rfloor>"
proof -
  define N where "N = \<lfloor>y\<rfloor>"
  define k where "k = \<lfloor>log 2 (of_int N)\<rfloor>"
  have N1: "1 \<le> N"
    using assms by (simp add: N_def)
  then have Npos: "0 < real_of_int N"
    by simp
  have k: "2 powr of_int k \<le> real_of_int N" "real_of_int N < 2 powr (of_int k + 1)"
    using floor_log_eq_powr_iff [of "of_int N" 2 k] Npos by (simp_all add: k_def)
  have "0 \<le> log 2 (of_int N)"
    using N1 by (simp add: zero_le_log_cancel_iff)
  then have k0: "0 \<le> k"
    by (simp add: k_def)
  have "2 powr (of_int k + 1) = real_of_int (2 ^ nat (k + 1))"
    using k0 by (simp add: powr_realpow [symmetric] nat_add_distrib) (simp add: powr_add)
  with k(2) have "N < 2 ^ nat (k + 1)"
    by (metis of_int_less_iff)
  then have "N + 1 \<le> 2 ^ nat (k + 1)"
    by simp
  then have "real_of_int (N + 1) \<le> real_of_int (2 ^ nat (k + 1))"
    by (simp only: of_int_le_iff)
  moreover have "y < real_of_int (N + 1)"
    unfolding N_def by linarith
  ultimately have up: "y < 2 powr (of_int k + 1)"
    using \<open>2 powr (of_int k + 1) = real_of_int (2 ^ nat (k + 1))\<close> by linarith
  have "of_int N \<le> y"
    unfolding N_def by linarith
  with k(1) have lo: "2 powr of_int k \<le> y"
    by linarith
  have "\<lfloor>log 2 y\<rfloor> = k"
    using assms lo up by (simp add: floor_log_eq_powr_iff)
  then show ?thesis
    by (simp add: k_def N_def)
qed

lemma exponent_log:
  assumes "x \<noteq> 0"
  shows "exponent x = \<lfloor>log 2 \<bar>x\<bar>\<rfloor>"
proof (cases "1 \<le> \<bar>x\<bar>")
  case True
  then have "0 < \<lfloor>\<bar>x\<bar>\<rfloor>"
    by linarith
  then have "bitlen \<lfloor>\<bar>x\<bar>\<rfloor> = \<lfloor>log 2 (of_int \<lfloor>\<bar>x\<bar>\<rfloor>)\<rfloor> + 1"
    by (simp add: bitlen_alt_def)
  with True show ?thesis
    by (simp add: exponent_def floor_log_int_part)
next
  case False
  define y where "y = 1 / \<bar>x\<bar>"
  define M where "M = \<lceil>y\<rceil>"
  have y1: "1 < y"
    using False assms by (simp add: y_def)
  then have M2: "2 \<le> M"
    unfolding M_def by linarith
  define j where "j = \<lfloor>log 2 (of_int (M - 1))\<rfloor>"
  have Mpos: "0 < real_of_int (M - 1)"
    using M2 by simp
  have j: "2 powr of_int j \<le> real_of_int (M - 1)"
    "real_of_int (M - 1) < 2 powr (of_int j + 1)"
    using floor_log_eq_powr_iff [of "of_int (M - 1)" 2 j] Mpos by (simp_all add: j_def)
  have "0 \<le> log 2 (of_int (M - 1))"
    using M2 by (simp add: zero_le_log_cancel_iff)
  then have j0: "0 \<le> j"
    by (simp add: j_def)
  have p: "2 powr (of_int j + 1) = real_of_int (2 ^ nat (j + 1))"
    using j0 by (simp add: powr_realpow [symmetric] nat_add_distrib) (simp add: powr_add)
  with j(2) have "M - 1 < 2 ^ nat (j + 1)"
    by (metis of_int_less_iff)
  then have "M \<le> 2 ^ nat (j + 1)"
    by simp
  then have "real_of_int M \<le> real_of_int (2 ^ nat (j + 1))"
    by (simp only: of_int_le_iff)
  moreover have "y \<le> of_int M"
    unfolding M_def by linarith
  ultimately have up: "y \<le> 2 powr (of_int j + 1)"
    using p by linarith
  have "of_int (M - 1) < y"
    unfolding M_def by linarith
  with j(1) have lo: "2 powr of_int j < y"
    by linarith
  have xy: "\<bar>x\<bar> = 1 / y"
    using assms by (simp add: y_def)
  have ypos: "0 < y"
    using y1 by simp
  have "2 powr of_int (- (j + 1)) \<le> \<bar>x\<bar>"
  proof -
    have "1 / 2 powr (of_int j + 1) \<le> 1 / y"
      using up ypos by (intro divide_left_mono) auto
    moreover have "(2 :: real) powr of_int (- (j + 1)) = 1 / 2 powr (of_int j + 1)"
      using powr_minus_divide [of "2 :: real" "of_int j + 1"] by simp
    ultimately show ?thesis
      by (simp only: xy)
  qed
  moreover have "\<bar>x\<bar> < 2 powr (of_int (- (j + 1)) + 1)"
  proof -
    have "1 / y < 1 / 2 powr of_int j"
      using lo ypos by (intro divide_strict_left_mono) auto
    also have "\<dots> = 2 powr (of_int (- (j + 1)) + 1)"
      using powr_minus_divide [of "2 :: real" "of_int j"] by simp
    finally show ?thesis
      by (simp add: xy)
  qed
  ultimately have "\<lfloor>log 2 \<bar>x\<bar>\<rfloor> = - (j + 1)"
    using assms by (simp add: floor_log_eq_powr_iff)
  moreover have "bitlen (M - 1) = j + 1"
    using M2 by (simp add: bitlen_alt_def j_def)
  ultimately show ?thesis
    using False by (simp add: exponent_def y_def M_def)
qed

lemma quantum_log:
  assumes "x \<noteq> 0"
  shows "quantum x = 2 powr of_int (max (\<lfloor>log 2 \<bar>x\<bar>\<rfloor> - 52) (- 1074))"
  by (simp only: quantum_def pow2_powr exponent_log [OF assms])

text \<open>
  Rounding to a double moves a number by at most half a quantum, and leaves a multiple
  of the quantum where it is.
\<close>

lemma round_half_even_near: "\<bar>of_int (round_half_even y) - y\<bar> \<le> 1 / 2"
  unfolding round_half_even_def Let_def by (auto; linarith)

lemma round_half_even_of_int: "round_half_even (of_int k) = k"
  by (simp add: round_half_even_def)

lemma exponent_bounds:
  assumes "x \<noteq> 0"
  shows "2 powr of_int \<lfloor>log 2 \<bar>x\<bar>\<rfloor> \<le> \<bar>x\<bar>" and "\<bar>x\<bar> < 2 powr (of_int \<lfloor>log 2 \<bar>x\<bar>\<rfloor> + 1)"
  using assms floor_log_eq_powr_iff [of "\<bar>x\<bar>" 2 "\<lfloor>log 2 \<bar>x\<bar>\<rfloor>"] by auto

lemma exponent_eq:
  assumes "2 powr of_int e \<le> \<bar>x\<bar>" and "\<bar>x\<bar> < 2 powr (of_int e + 1)"
  shows "\<lfloor>log 2 \<bar>x\<bar>\<rfloor> = e"
proof -
  have "0 < \<bar>x\<bar>"
    using assms(1) by (smt (verit) powr_gt_zero)
  then show ?thesis
    using assms by (simp add: floor_log_eq_powr_iff)
qed

lemma quantum_pos: "0 < quantum x"
  by (simp add: quantum_def pow2_powr)

lemma binary64_exact:
  assumes "x / quantum x = of_int k" and "\<bar>x\<bar> < 2 ^ 1024"
  shows "binary64 x = Fin x"
proof (cases "x = 0")
  case True
  then show ?thesis by (simp add: binary64_def)
next
  case False
  have "round_half_even (x / quantum x) = k"
    by (simp only: assms(1) round_half_even_of_int)
  then have "of_int (round_half_even (x / quantum x)) * quantum x = x / quantum x * quantum x"
    by (simp only: assms(1))
  then have "of_int (round_half_even (x / quantum x)) * quantum x = x"
    using quantum_pos [of x] by simp
  with False assms(2) show ?thesis
    by (auto simp: binary64_def Let_def)
qed

lemma binary64_near:
  assumes "\<bar>x\<bar> + quantum x / 2 < 2 ^ 1024"
  shows "\<exists>r. binary64 x = Fin r \<and> \<bar>r - x\<bar> \<le> quantum x / 2"
proof (cases "x = 0")
  case True
  then show ?thesis using quantum_pos [of x] by (simp add: binary64_def)
next
  case False
  define r where "r = of_int (round_half_even (x / quantum x)) * quantum x"
  have "\<bar>of_int (round_half_even (x / quantum x)) - x / quantum x\<bar> \<le> 1 / 2"
    by (rule round_half_even_near)
  then have "\<bar>of_int (round_half_even (x / quantum x)) - x / quantum x\<bar> * quantum x
      \<le> 1 / 2 * quantum x"
    using quantum_pos [of x] by (intro mult_right_mono) auto
  moreover have "\<bar>of_int (round_half_even (x / quantum x)) - x / quantum x\<bar> * quantum x
      = \<bar>r - x\<bar>"
  proof -
    have "\<bar>r - x\<bar> = \<bar>(of_int (round_half_even (x / quantum x)) - x / quantum x) * quantum x\<bar>"
      using quantum_pos [of x] by (simp add: r_def left_diff_distrib)
    also have "\<dots> = \<bar>of_int (round_half_even (x / quantum x)) - x / quantum x\<bar> * quantum x"
      using quantum_pos [of x] by (simp add: abs_mult)
    finally show ?thesis by simp
  qed
  ultimately have near: "\<bar>r - x\<bar> \<le> quantum x / 2"
    by simp
  with assms have "\<bar>r\<bar> < 2 ^ 1024"
    by linarith
  then have "binary64 x = Fin r"
    using False by (auto simp: binary64_def Let_def r_def [symmetric])
  with near show ?thesis by blast
qed

lemma exponent_less:
  assumes "x \<noteq> 0" and "\<bar>x\<bar> < 2 ^ B"
  shows "\<lfloor>log 2 \<bar>x\<bar>\<rfloor> < int B"
proof -
  have "(2 :: real) powr of_int \<lfloor>log 2 \<bar>x\<bar>\<rfloor> < 2 powr of_int (int B)"
    using exponent_bounds(1) [OF assms(1)] assms(2) by (simp add: powr_realpow)
  then show ?thesis by simp
qed

lemma exponent_ge:
  assumes "2 powr of_int a \<le> \<bar>x\<bar>"
  shows "a \<le> \<lfloor>log 2 \<bar>x\<bar>\<rfloor>"
proof -
  have "x \<noteq> 0"
    using assms by (smt (verit) powr_gt_zero)
  from exponent_bounds(2) [OF this] assms
  have "(2 :: real) powr of_int a < 2 powr (of_int \<lfloor>log 2 \<bar>x\<bar>\<rfloor> + 1)"
    by linarith
  then have "of_int a < (of_int \<lfloor>log 2 \<bar>x\<bar>\<rfloor> + 1 :: real)"
    by simp
  then show ?thesis by linarith
qed

lemma quantum_le:
  assumes "x \<noteq> 0" and "\<bar>x\<bar> < 2 ^ B"
  shows "quantum x \<le> 2 powr (of_int (int B) - 53)"
proof -
  have "max (\<lfloor>log 2 \<bar>x\<bar>\<rfloor> - 52) (- 1074) \<le> int B - 53"
    using exponent_less [OF assms] by simp
  then have "of_int (max (\<lfloor>log 2 \<bar>x\<bar>\<rfloor> - 52) (- 1074)) \<le> (of_int (int B) - 53 :: real)"
    by linarith
  then show ?thesis
    unfolding quantum_log [OF assms(1)] by simp
qed

text \<open>
  A number with few enough bits is a double: an integer below \<open>2^53\<close> in magnitude, and
  a half of an integer below \<open>2^52\<close> in magnitude.
\<close>

lemma binary64_dyadic:
  assumes "\<bar>of_int m / 2 ^ j\<bar> < (2 :: real) ^ B" and "B + j \<le> 53"
  shows "binary64 (of_int m / 2 ^ j) = Fin (of_int m / 2 ^ j)"
proof (cases "m = 0")
  case True
  then show ?thesis by (simp add: binary64_def)
next
  case False
  define x :: real where "x = of_int m / 2 ^ j"
  have x0: "x \<noteq> 0"
    using False by (simp add: x_def)
  have "1 \<le> \<bar>real_of_int m\<bar>"
    using False by (simp add: abs_if)
  then have "2 powr of_int (- int j) \<le> \<bar>x\<bar>"
    by (simp add: x_def powr_minus powr_realpow field_simps)
  from exponent_ge [OF this] have lo: "- int j \<le> \<lfloor>log 2 \<bar>x\<bar>\<rfloor>" .
  from exponent_less [OF x0] assms(1) have hi: "\<lfloor>log 2 \<bar>x\<bar>\<rfloor> < int B"
    by (simp add: x_def)
  define q where "q = \<lfloor>log 2 \<bar>x\<bar>\<rfloor> - 52"
  have q: "max (\<lfloor>log 2 \<bar>x\<bar>\<rfloor> - 52) (- 1074) = q"
    using lo assms(2) by (simp add: q_def)
  have qj: "int j \<le> - q"
    using hi assms(2) by (simp add: q_def)
  define d where "d = nat (- q) - j"
  have "quantum x = 2 powr of_int q"
    by (simp add: quantum_log [OF x0] q)
  also have "\<dots> = 1 / 2 ^ nat (- q)"
    using qj by (simp add: powr_realpow [symmetric] powr_minus_divide [symmetric])
  finally have "x / quantum x = of_int m / 2 ^ j * 2 ^ nat (- q)"
    by (simp add: x_def)
  also have "nat (- q) = j + d"
    using qj by (simp add: d_def)
  finally have "x / quantum x = of_int (m * 2 ^ d)"
    by (simp add: power_add)
  moreover have "\<bar>x\<bar> < 2 ^ 1024"
  proof -
    have "(2 :: real) ^ B \<le> 2 ^ 1024"
      using assms(2) by (intro power_increasing) auto
    with assms(1) show ?thesis by (simp add: x_def)
  qed
  ultimately have "binary64 x = Fin x"
    by (rule binary64_exact)
  then show ?thesis by (simp add: x_def)
qed

lemma binary64_int:
  assumes "\<bar>s\<bar> < 2 ^ 53"
  shows "binary64 (of_int s) = Fin (of_int s)"
proof -
  have "\<bar>real_of_int s / 2 ^ 0\<bar> < 2 ^ 53"
    using assms by (simp flip: of_int_abs)
  from binary64_dyadic [OF this] show ?thesis by simp
qed

lemma binary64_small:
  assumes "\<bar>x\<bar> < 2 ^ 20"
  shows "\<exists>r. binary64 x = Fin r \<and> \<bar>r - x\<bar> \<le> 1 / 2 ^ 34"
proof (cases "x = 0")
  case True
  then show ?thesis by (simp add: binary64_def)
next
  case False
  from quantum_le [OF False assms] have "quantum x \<le> 2 powr (- 33)"
    by simp
  also have "\<dots> = 1 / 2 ^ 33"
    by (simp add: powr_minus_divide)
  finally have qu: "quantum x \<le> 1 / 2 ^ 33" .
  then have "\<bar>x\<bar> + quantum x / 2 < 2 ^ 1024"
    using assms by simp
  from binary64_near [OF this] obtain r where "binary64 x = Fin r" "\<bar>r - x\<bar> \<le> quantum x / 2"
    by blast
  with qu show ?thesis by auto
qed

lemma binary64_at:
  assumes "2 powr of_int e \<le> \<bar>x\<bar>" and "\<bar>x\<bar> < 2 powr (of_int e + 1)"
    and "- 1022 \<le> e" and "e \<le> 1022"
  shows "binary64 x =
     Fin (of_int (round_half_even (x / 2 powr of_int (e - 52))) * 2 powr of_int (e - 52))"
proof -
  have x0: "x \<noteq> 0"
    using assms(1) by (smt (verit) powr_gt_zero)
  have e: "\<lfloor>log 2 \<bar>x\<bar>\<rfloor> = e"
    using assms(1,2) by (rule exponent_eq)
  have "max (e - 52) (- 1074) = e - 52"
    using assms(3) by simp
  then have q: "quantum x = 2 powr of_int (e - 52)"
    by (simp only: quantum_log [OF x0] e)
  have "(2 :: real) powr of_int (e - 52) \<le> 2 powr (of_int e + 1)"
    by (intro powr_mono) auto
  moreover have "0 < (2 :: real) powr of_int (e - 52)"
    by simp
  ultimately have "(2 :: real) powr (of_int e + 1) + 2 powr of_int (e - 52) / 2
      \<le> 2 * 2 powr (of_int e + 1)"
    by linarith
  also have "\<dots> = 2 powr (of_int e + 2)"
    by (simp add: powr_add)
  also have "\<dots> \<le> 2 powr 1024"
    using assms(4) by (intro powr_mono) auto
  also have "\<dots> = 2 ^ 1024"
    by (simp add: powr_realpow [symmetric])
  finally have "\<bar>x\<bar> + quantum x / 2 < 2 ^ 1024"
    using assms(2) q by linarith
  then have "\<bar>of_int (round_half_even (x / quantum x)) * quantum x\<bar> < 2 ^ 1024"
    using round_half_even_near [of "x / quantum x"] quantum_pos [of x]
      binary64_near [of x] x0 by (auto simp: binary64_def Let_def split: if_splits)
  then show ?thesis
    using x0 by (auto simp: binary64_def Let_def q)
qed

text \<open>
  \<^verbatim>\<open>Math.round\<close> rounds to the nearest integer with halves going up.
\<close>

lemma floor_half_up: "\<lfloor>x + 1 / 2\<rfloor> = round_half_up x"
proof (cases "x - real_of_int \<lfloor>x\<rfloor> < 1 / 2")
  case True
  then have "\<lfloor>x + 1 / 2\<rfloor> = \<lfloor>x\<rfloor>"
    by (intro floor_unique) linarith+
  with True show ?thesis
    by (simp add: round_half_up_def)
next
  case False
  then have "\<lfloor>x + 1 / 2\<rfloor> = \<lfloor>x\<rfloor> + 1"
    by (intro floor_unique) (simp; linarith)+
  with False show ?thesis
    by (simp add: round_half_up_def)
qed

text \<open>
  On integers the sum is exact below \<open>2^53\<close>, and the rounded quotient of an integer
  by an array length is the exact quotient rounded with halves going up as long as the
  quotient is below \<open>2^20\<close> in magnitude: the double is nearer to the quotient than the
  quotient is to the next half of an integer.
\<close>

lemma js_add_num:
  assumes "\<bar>a + b\<bar> < 2 ^ 53"
  shows "js_add (num a) (num b) = num (a + b)"
  using binary64_int [OF assms] by (simp add: num_def)

lemma js_less_num: "js_less (num a) (num b) \<longleftrightarrow> a < b"
  by (simp add: num_def)

lemma Math_round_div_num:
  assumes t: "\<bar>t\<bar> < 2 ^ 20 * int n" and n: "0 < n" "n < 2 ^ 32"
  shows "Math_round (js_div (num t) (num (int n))) = num (round_half_up (real_of_int t / real n))"
proof -
  define x where "x = real_of_int t / real n"
  define k where "k = \<lfloor>x + 1 / 2\<rfloor>"
  have npos: "0 < real n"
    using n(1) by simp
  have "real_of_int \<bar>t\<bar> < real_of_int (2 ^ 20 * int n)"
    using t by (simp only: of_int_less_iff)
  then have "\<bar>real_of_int t\<bar> / real n < 2 ^ 20 * real n / real n"
    using npos by (intro divide_strict_right_mono) auto
  then have x_range: "\<bar>x\<bar> < 2 ^ 20"
    using npos by (simp add: x_def)
  from binary64_small [OF x_range] obtain r where r: "binary64 x = Fin r"
    and near: "\<bar>r - x\<bar> \<le> 1 / 2 ^ 34"
    by blast
  have div: "js_div (num t) (num (int n)) = Fin r"
    using n(1) r by (simp add: num_def x_def)
  have gap: "1 / 2 ^ 34 < 1 / (2 * real n)"
  proof -
    have "real n < 2 ^ 32"
      using n(2) by (metis of_nat_less_iff of_nat_numeral of_nat_power)
    then have "2 * real n < 2 ^ 34"
      by simp
    with npos show ?thesis
      by (intro divide_strict_left_mono) auto
  qed
  have upper: "r + 1 / 2 < of_int k + 1"
  proof -
    have "x + 1 / 2 < of_int k + 1"
      unfolding k_def by linarith
    then have "real_of_int (2 * t + int n) < real_of_int (2 * (k + 1) * int n)"
      using npos by (simp add: x_def field_simps)
    then have "2 * t + int n \<le> 2 * (k + 1) * int n - 1"
      by linarith
    then have "real_of_int (2 * t + int n) \<le> real_of_int (2 * (k + 1) * int n - 1)"
      by (simp only: of_int_le_iff)
    then have "real_of_int (2 * t + int n) / (2 * real n)
        \<le> real_of_int (2 * (k + 1) * int n - 1) / (2 * real n)"
      using npos by (intro divide_right_mono) auto
    moreover have "x + 1 / 2 = real_of_int (2 * t + int n) / (2 * real n)"
      using npos by (simp add: x_def field_simps)
    moreover have "of_int k + 1 - 1 / (2 * real n)
        = real_of_int (2 * (k + 1) * int n - 1) / (2 * real n)"
      using npos by (simp add: field_simps)
    ultimately have "x + 1 / 2 \<le> of_int k + 1 - 1 / (2 * real n)"
      by simp
    with near gap show ?thesis
      by linarith
  qed
  have lower: "of_int k \<le> r + 1 / 2"
  proof (cases "real_of_int k = x + 1 / 2")
    case True
    then have x: "x = of_int (2 * k - 1) / 2 ^ 1"
      by simp
    have "\<bar>real_of_int (2 * k - 1) / 2 ^ 1\<bar> < 2 ^ 20"
      using x x_range by simp
    from binary64_dyadic [OF this] have "binary64 x = Fin x"
      by (simp add: x)
    with r have "r = x" by simp
    with True show ?thesis by simp
  next
    case False
    have "of_int k \<le> x + 1 / 2"
      unfolding k_def by linarith
    with False have "of_int k < x + 1 / 2"
      by simp
    then have "real_of_int (2 * k * int n) < real_of_int (2 * t + int n)"
      using npos by (simp add: x_def field_simps)
    then have "2 * k * int n + 1 \<le> 2 * t + int n"
      by linarith
    then have "real_of_int (2 * k * int n + 1) \<le> real_of_int (2 * t + int n)"
      by (simp only: of_int_le_iff)
    then have "real_of_int (2 * k * int n + 1) / (2 * real n)
        \<le> real_of_int (2 * t + int n) / (2 * real n)"
      using npos by (intro divide_right_mono) auto
    moreover have "x + 1 / 2 = real_of_int (2 * t + int n) / (2 * real n)"
      using npos by (simp add: x_def field_simps)
    moreover have "of_int k + 1 / (2 * real n)
        = real_of_int (2 * k * int n + 1) / (2 * real n)"
      using npos by (simp add: field_simps)
    ultimately have "of_int k + 1 / (2 * real n) \<le> x + 1 / 2"
      by simp
    with near gap show ?thesis
      by linarith
  qed
  from lower upper have "\<lfloor>r + 1 / 2\<rfloor> = k"
    by (intro floor_unique) auto
  then have "Math_round (Fin r) = num k"
    by (simp add: num_def)
  then have "Math_round (js_div (num t) (num (int n))) = num k"
    by (simp only: div)
  then show ?thesis
    by (simp add: k_def floor_half_up x_def)
qed

lemma Math_round_div_int:
  assumes "\<bar>t\<bar> < 2 ^ 20 * d" and "0 < d" and "d < 2 ^ 32"
  shows "Math_round (js_div (num t) (num d)) = num (round_half_up (real_of_int t / real_of_int d))"
proof -
  have "nat d < 2 ^ 32"
    using assms(2,3) by (simp add: nat_less_iff)
  with Math_round_div_num [of t "nat d"] assms show ?thesis
    by simp
qed

lemma sum_list_in_range:
  assumes "scores_in_range ps"
  shows "0 \<le> sum_list ps" and "sum_list ps \<le> 100 * int (length ps)"
proof -
  from assms have "\<forall>p \<in> set ps. 0 \<le> p \<and> p \<le> 100"
    by (simp add: scores_in_range_def)
  then have "0 \<le> sum_list ps \<and> sum_list ps \<le> 100 * int (length ps)"
    by (induction ps) auto
  then show "0 \<le> sum_list ps" and "sum_list ps \<le> 100 * int (length ps)"
    by simp_all
qed

lemma sum_list_exact:
  assumes "scores_in_range ps"
  shows "sum_list ps < 2 ^ 53"
proof -
  from assms have "int (length ps) < 2 ^ 32"
    by (simp add: scores_in_range_def)
  with sum_list_in_range(2) [OF assms] show ?thesis
    by simp
qed

lemma foldl_js_add_num:
  assumes "0 \<le> s" and "\<forall>p \<in> set ps. 0 \<le> p" and "s + sum_list ps < 2 ^ 53"
  shows "foldl js_add (num s) (map num ps) = num (s + sum_list ps)"
  using assms
proof (induction ps arbitrary: s)
  case Nil
  then show ?case by simp
next
  case (Cons p ps)
  have "0 \<le> sum_list ps"
    using Cons.prems(2) by (intro sum_list_nonneg) simp
  with Cons.prems have "\<bar>s + p\<bar> < 2 ^ 53"
    by simp
  then have "js_add (num s) (num p) = num (s + p)"
    by (rule js_add_num)
  moreover have "foldl js_add (num (s + p)) (map num ps) = num (s + p + sum_list ps)"
    using Cons.prems by (intro Cons.IH) (simp_all add: add.assoc)
  ultimately show ?case
    by (simp add: add.assoc)
qed

lemma foldl_score:
  "foldl (\<lambda>sum entry. js_add sum (num (score entry))) s fb =
   foldl js_add s (map num (map score fb))"
  by (induction fb arbitrary: s) auto

lemma foldl_highest:
  "foldl (\<lambda>h p. if js_greater p h then p else h) (num h) (map num ps) = num (foldl max h ps)"
  by (induction ps arbitrary: h) (auto simp: js_greater_def js_less_num max_def)

lemma foldl_lowest:
  "foldl (\<lambda>l p. if js_less p l then p else l) (num l) (map num ps) = num (foldl min l ps)"
  by (induction ps arbitrary: l) (auto simp: js_less_num min_def)

lemma foldl_max: "foldl max (h::int) xs = Max (insert h (set xs))"
proof (induction xs arbitrary: h)
  case Nil
  then show ?case by simp
next
  case (Cons x xs)
  have "Max (insert (max h x) (set xs)) = Max (insert h (insert x (set xs)))"
    by (cases "set xs = {}") (simp_all add: max.assoc)
  with Cons show ?case by simp
qed

lemma foldl_min: "foldl min (h::int) xs = Min (insert h (set xs))"
proof (induction xs arbitrary: h)
  case Nil
  then show ?case by simp
next
  case (Cons x xs)
  have "Min (insert (min h x) (set xs)) = Min (insert h (insert x (set xs)))"
    by (cases "set xs = {}") (simp_all add: min.assoc)
  with Cons show ?case by simp
qed

text \<open>
  Far outside the scores of the data model the doubles round. The scores \<open>2^51\<close>,
  \<open>2^51\<close> and \<open>2^51 + 1\<close> have the sum \<open>3 * 2^51 + 1\<close>; its quotient by 3 is rounded
  to the double \<open>2^51 + 1/2\<close>, and \<^verbatim>\<open>Math.round\<close> gives \<open>2^51 + 1\<close>, where the exact
  mean rounds to \<open>2^51\<close>. The scores \<open>2^53\<close> and 1 have the sum \<open>2^53\<close>.
\<close>

lemma round_quotient_large:
  "Math_round (js_div (js_add (js_add (js_add (num 0) (num 2251799813685248))
       (num 2251799813685248)) (num 2251799813685249)) (num 3)) = num 2251799813685249"
proof -
  have s1: "js_add (num 0) (num 2251799813685248) = num 2251799813685248"
    using js_add_num [of 0 2251799813685248] by simp
  have s2: "js_add (num 2251799813685248) (num 2251799813685248) = num 4503599627370496"
    using js_add_num [of 2251799813685248 2251799813685248] by simp
  have s3: "js_add (num 4503599627370496) (num 2251799813685249) = num 6755399441055745"
    using js_add_num [of 4503599627370496 2251799813685249] by simp
  have "binary64 (6755399441055745 / 3) =
     Fin (of_int (round_half_even ((6755399441055745 / 3) / 2 powr of_int (51 - 52)))
            * 2 powr of_int (51 - 52))"
    by (rule binary64_at) (simp_all add: powr_add)
  also have "round_half_even ((6755399441055745 / 3) / 2 powr of_int (51 - 52))
      = 4503599627370497"
    by (simp add: round_half_even_def powr_minus_divide)
  finally have "binary64 (6755399441055745 / 3) = Fin (4503599627370497 / 2)"
    by (simp add: powr_minus_divide)
  then have d: "js_div (num 6755399441055745) (num 3) = Fin (4503599627370497 / 2)"
    by (simp add: num_def)
  have r: "Math_round (Fin (4503599627370497 / 2)) = num 2251799813685249"
    by (simp add: num_def)
  show ?thesis
    by (simp only: s1 s2 s3 d r)
qed

lemma round_sum_large:
  "Math_round (js_div (js_add (js_add (num 0) (num 9007199254740992)) (num 1)) (num 2))
     = num 4503599627370496"
proof -
  have "binary64 9007199254740992 =
     Fin (of_int (round_half_even (9007199254740992 / 2 powr of_int (53 - 52)))
            * 2 powr of_int (53 - 52))"
    by (rule binary64_at) (simp_all add: powr_add)
  also have "round_half_even (9007199254740992 / 2 powr of_int (53 - 52))
      = 4503599627370496"
    by (simp add: round_half_even_def)
  finally have "binary64 9007199254740992 = Fin 9007199254740992"
    by simp
  then have a: "js_add (num 0) (num 9007199254740992) = num 9007199254740992"
    by (simp add: num_def)
  have "binary64 9007199254740993 =
     Fin (of_int (round_half_even (9007199254740993 / 2 powr of_int (53 - 52)))
            * 2 powr of_int (53 - 52))"
    by (rule binary64_at) (simp_all add: powr_add)
  also have "round_half_even (9007199254740993 / 2 powr of_int (53 - 52))
      = 4503599627370496"
    by (simp add: round_half_even_def)
  finally have "binary64 9007199254740993 = Fin 9007199254740992"
    by simp
  then have b: "js_add (num 9007199254740992) (num 1) = num 9007199254740992"
    by (simp add: num_def)
  have "binary64 4503599627370496 = Fin 4503599627370496"
    using binary64_int [of 4503599627370496] by simp
  then have c: "js_div (num 9007199254740992) (num 2) = num 4503599627370496"
    by (simp add: num_def)
  have r: "Math_round (num 4503599627370496) = num 4503599627370496"
    by (simp add: num_def)
  show ?thesis
    by (simp only: a b c r)
qed

lemma large_scores_round:
  "performanceScore (calculatePerformanceScore
      (a\<lparr>feedback :=
          [\<lparr>text_f = t1, score = 2251799813685248, reviewer = r1, date = d1\<rparr>,
           \<lparr>text_f = t2, score = 2251799813685248, reviewer = r2, date = d2\<rparr>,
           \<lparr>text_f = t3, score = 2251799813685249, reviewer = r3, date = d3\<rparr>]\<rparr>))
     = num 2251799813685249
   \<and> performanceScore (calculatePerformanceScore
      (a\<lparr>feedback :=
          [\<lparr>text_f = t1, score = 9007199254740992, reviewer = r1, date = d1\<rparr>,
           \<lparr>text_f = t2, score = 1, reviewer = r2, date = d2\<rparr>]\<rparr>))
     = num 4503599627370496"
  by (simp add: calculatePerformanceScore_def round_quotient_large round_sum_large)

subsection \<open>Arrays\<close>

text \<open>
  \<open>find_ref\<close> returns the index of the first element that satisfies the predicate, and
  nothing exactly when no element does; the element at that index is what
  \<open>List.find\<close> returns.
\<close>

lemma find_ref_None_iff: "find_ref P xs = None \<longleftrightarrow> (\<forall>x \<in> set xs. \<not> P x)"
  by (induction xs) auto

lemma find_ref_Some:
  "find_ref P xs = Some i \<Longrightarrow> i < length xs \<and> P (xs ! i) \<and> (\<forall>j < i. \<not> P (xs ! j))"
proof (induction xs arbitrary: i)
  case Nil
  then show ?case by simp
next
  case (Cons x xs)
  show ?case
  proof (cases "P x")
    case True
    with Cons.prems show ?thesis by simp
  next
    case False
    with Cons.prems obtain k where k: "find_ref P xs = Some k" "i = Suc k"
      by auto
    from Cons.IH [OF k(1)] False k(2) show ?thesis
      by (auto simp: less_Suc_eq_0_disj)
  qed
qed

lemma find_ref_first:
  "i < length xs \<Longrightarrow> P (xs ! i) \<Longrightarrow> \<forall>j < i. \<not> P (xs ! j) \<Longrightarrow> find_ref P xs = Some i"
proof (induction xs arbitrary: i)
  case Nil
  then show ?case by simp
next
  case (Cons x xs)
  show ?case
  proof (cases i)
    case 0
    with Cons.prems show ?thesis by simp
  next
    case (Suc k)
    with Cons.prems have "\<not> P x" by auto
    moreover have "find_ref P xs = Some k"
      using Cons.prems Suc by (intro Cons.IH) auto
    ultimately show ?thesis using Suc by simp
  qed
qed

lemma find_ref_find: "map_option (\<lambda>i. xs ! i) (find_ref P xs) = List.find P xs"
  by (induction xs) (auto simp: option.map_comp comp_def)

lemma find_ref_update:
  assumes "find_ref P xs = Some i" and "P y"
  shows "find_ref P (xs[i := y]) = Some i"
proof -
  from find_ref_Some [OF assms(1)]
  have i: "i < length xs" and before: "\<forall>j < i. \<not> P (xs ! j)"
    by auto
  show ?thesis
  proof (rule find_ref_first)
    show "i < length (xs[i := y])" using i by simp
    show "P (xs[i := y] ! i)" using i assms(2) by simp
    show "\<forall>j < i. \<not> P (xs[i := y] ! j)" using before by simp
  qed
qed

lemma first_match_exists:
  assumes "\<exists>x \<in> set xs. P x"
  shows "\<exists>i < length xs. P (xs ! i) \<and> (\<forall>j < i. \<not> P (xs ! j))"
proof -
  from assms have "find_ref P xs \<noteq> None"
    by (simp add: find_ref_None_iff)
  then obtain i where "find_ref P xs = Some i"
    by auto
  from find_ref_Some [OF this] show ?thesis
    by blast
qed

lemma upto_snoc: "[1..1 + int n] = [1..int n] @ [1 + int n]"
  using upto_rec2 [of 1 "1 + int n"] by simp

lemma map_update_same: "f y = f (xs ! i) \<Longrightarrow> map f (xs[i := y]) = map f xs"
  by (induction xs arbitrary: i) (auto split: nat.splits)

lemma list_all_update: "list_all P xs \<Longrightarrow> P y \<Longrightarrow> list_all P (xs[i := y])"
  by (induction xs arbitrary: i) (auto split: nat.splits)

lemma list_all_nth: "list_all P xs \<Longrightarrow> i < length xs \<Longrightarrow> P (xs ! i)"
  by (simp add: list_all_length)

lemma list_all_update_nth:
  assumes "list_all P xs" and "i < length xs" and "\<And>x. P x \<Longrightarrow> P (f x)"
  shows "list_all P (xs[i := f (xs ! i)])"
  using assms by (intro list_all_update) (auto dest: list_all_nth)

subsection \<open>The example at the end of the file, evaluated\<close>

lemmas eval_defs = run_tm_calls.simps do_tm_call.simps do_call.simps
  new_TaskManager_def addAttachee_def new_Attachee_def validateDivision_def
  validDivisions_def assignTaskToDivision_def assignTaskToAttachee_def assignTask_def
  completeTask_def addFeedbackToAttachee_def addFeedback_def calculatePerformanceScore_def
  removeAttachee_def js_add_num Math_round_div_int round_half_up_def

lemmas report_defs = generatePerformanceReport_def report_loop.simps report_step_def
  initial_report_def getPerformanceSummary_def Let_def stats_of_def js_add_num
  Math_round_div_int round_half_up_def js_less_num js_greater_def

lemma hubManager_value:
  "hubManager now1 now2 now3 =
   \<lparr>attachees =
     [\<lparr>name = ''Omar Haitham'', email = ''omarhaitham@example.com'',
       division = ''Engineering'',
       tasks =
         [\<lparr>id_t = 1, description = ''Develop API endpoint for user management'',
            deadline = ''2023-06-15'', priority = 4, completed = True,
            completionDate = Some ''2023-06-08''\<rparr>,
          \<lparr>id_t = 2, description = ''Review code quality standards'',
            deadline = ''2023-06-10'', priority = 3, completed = True,
            completionDate = Some ''2023-06-09''\<rparr>],
       feedback =
         [\<lparr>text_f = ''Excellent work on the API development!'', score = 95,
            reviewer = ''Supervisor A'', date = now1\<rparr>],
       performanceScore = num 95\<rparr>,
      \<lparr>name = ''Martin John'', email = ''martin@example.com'',
       division = ''Engineering'',
       tasks =
         [\<lparr>id_t = 1, description = ''Develop API endpoint for user management'',
            deadline = ''2023-06-15'', priority = 4, completed = False,
            completionDate = None\<rparr>,
          \<lparr>id_t = 2, description = ''Optimize database queries'',
            deadline = ''2023-06-12'', priority = 5, completed = False,
            completionDate = None\<rparr>],
       feedback =
         [\<lparr>text_f = ''Good progress, needs more attention to detail'', score = 82,
            reviewer = ''Supervisor B'', date = now2\<rparr>],
       performanceScore = num 82\<rparr>,
      \<lparr>name = ''Mary Brown'', email = ''maryb@example.com'',
       division = ''Tech Programs'', tasks = [],
       feedback =
         [\<lparr>text_f = ''Outstanding contribution to the tech program'', score = 98,
            reviewer = ''Supervisor C'', date = now3\<rparr>],
       performanceScore = num 98\<rparr>,
      \<lparr>name = ''Diana Charles'', email = ''diana@example.com'',
       division = ''Radio Support'', tasks = [], feedback = [], performanceScore = num 0\<rparr>,
      \<lparr>name = ''Cynthia Adams'', email = ''cyadams@example.com'',
       division = ''Hub Support'', tasks = [], feedback = [], performanceScore = num 0\<rparr>]\<rparr>"
  by (simp add: hubManager_def eval_defs)

lemma hub_divisions:
  "map division (attachees (hubManager now1 now2 now3)) =
     [''Engineering'', ''Engineering'', ''Tech Programs'', ''Radio Support'', ''Hub Support'']"
  by (simp add: hubManager_value)

lemma hub_scores:
  "map performanceScore (attachees (hubManager now1 now2 now3)) = map num [95, 82, 98, 0, 0]"
  by (simp add: hubManager_value)

lemma hub_valid:
  "\<forall>a \<in> set (attachees (hubManager now1 now2 now3)). division a \<in> set validDivisions"
  by (simp add: hubManager_value validDivisions_def)

subsection \<open>Attachee: the performance score\<close>

lemma new_Attachee_Inr:
  "new_Attachee n e d = Inr a \<Longrightarrow>
     a = \<lparr>name = n, email = e, division = d, tasks = [], feedback = [],
          performanceScore = num 0\<rparr>
     \<and> d \<in> set validDivisions"
  by (auto simp: new_Attachee_def validateDivision_def split: if_splits)

lemma calculatePerformanceScore_eq:
  assumes "feedback_in_range (feedback a)"
  shows "calculatePerformanceScore a =
     (if feedback a = [] then a
      else a\<lparr>performanceScore := num (round_half_up (mean (map score (feedback a))))\<rparr>)"
proof (cases "feedback a = []")
  case True
  then show ?thesis by (simp add: calculatePerformanceScore_def)
next
  case False
  let ?ps = "map score (feedback a)"
  have range: "scores_in_range ?ps"
    using assms by (simp add: feedback_in_range_def)
  have len: "0 < length (feedback a)" "length (feedback a) < 2 ^ 32"
    using False range by (simp_all add: scores_in_range_def)
  have sum: "0 \<le> sum_list ?ps" "sum_list ?ps \<le> 100 * int (length (feedback a))"
    using sum_list_in_range [OF range] by simp_all
  have "foldl js_add (num 0) (map num ?ps) = num (0 + sum_list ?ps)"
    using range sum_list_exact [OF range]
    by (intro foldl_js_add_num) (simp_all add: scores_in_range_def)
  then have total: "foldl (\<lambda>sum entry. js_add sum (num (score entry))) (num 0) (feedback a)
      = num (sum_list ?ps)"
    by (simp add: foldl_score)
  have "0 < int (length (feedback a))"
    using len(1) by simp
  then have "100 * int (length (feedback a)) < 2 ^ 20 * int (length (feedback a))"
    by (intro mult_strict_right_mono) simp_all
  with sum have "\<bar>sum_list ?ps\<bar> < 2 ^ 20 * int (length (feedback a))"
    by linarith
  from Math_round_div_num [OF this len]
  have "Math_round (js_div (num (sum_list ?ps)) (num (int (length (feedback a))))) =
      num (round_half_up (mean ?ps))"
    by (simp add: mean_def)
  with False total show ?thesis
    by (simp add: calculatePerformanceScore_def)
qed

lemma feedback_in_range_append:
  "feedback_in_range (xs @ ys) \<Longrightarrow> feedback_in_range xs"
  by (simp add: feedback_in_range_def scores_in_range_def)

lemma snd_getPerformanceSummary: "snd (getPerformanceSummary a) = a"
  by (simp add: getPerformanceSummary_def Let_def)

lemma feedback_calculatePerformanceScore:
  "feedback (calculatePerformanceScore a) = feedback a"
  by (simp add: calculatePerformanceScore_def Let_def)

lemma feedback_do_call: "\<exists>ys. feedback (do_call a c) = feedback a @ ys"
  by (cases c)
     (simp_all add: assignTask_def completeTask_def addFeedback_def
        feedback_calculatePerformanceScore snd_getPerformanceSummary split: option.splits)

lemma feedback_run_calls: "\<exists>ys. feedback (run_calls a cs) = feedback a @ ys"
proof (induction cs arbitrary: a)
  case Nil
  then show ?case by simp
next
  case (Cons c cs)
  from feedback_do_call [of a c] obtain xs where "feedback (do_call a c) = feedback a @ xs"
    by blast
  moreover from Cons.IH [of "do_call a c"] obtain ys where
    "feedback (run_calls (do_call a c) cs) = feedback (do_call a c) @ ys"
    by blast
  ultimately show ?case by simp
qed

lemma score_ok_do_call:
  assumes "score_ok a" and "feedback_in_range (feedback (do_call a c))"
  shows "score_ok (do_call a c)"
proof (cases c)
  case (AssignTask taskDescription dl prio)
  with assms(1) show ?thesis by (simp add: score_ok_def assignTask_def)
next
  case (CompleteTask taskId cd)
  with assms(1) show ?thesis by (simp add: score_ok_def completeTask_def split: option.splits)
next
  case (AddFeedback feedbackText sc rv now)
  let ?b = "a\<lparr>feedback := feedback a @
            [\<lparr>text_f = feedbackText, score = sc, reviewer = rv, date = now\<rparr>]\<rparr>"
  have "feedback_in_range (feedback ?b)"
    using assms(2) AddFeedback by (simp add: addFeedback_def feedback_calculatePerformanceScore)
  from calculatePerformanceScore_eq [OF this] AddFeedback show ?thesis
    by (simp add: score_ok_def addFeedback_def)
next
  case CalculatePerformanceScore
  have "feedback_in_range (feedback a)"
    using assms(2) CalculatePerformanceScore by (simp add: feedback_calculatePerformanceScore)
  from calculatePerformanceScore_eq [OF this] assms(1) CalculatePerformanceScore show ?thesis
    by (simp add: score_ok_def)
next
  case GetPerformanceSummary
  with assms(1) show ?thesis by (simp add: snd_getPerformanceSummary)
qed

lemma score_ok_run_calls:
  assumes "score_ok a" and "feedback_in_range (feedback (run_calls a cs))"
  shows "score_ok (run_calls a cs)"
  using assms
proof (induction cs arbitrary: a)
  case Nil
  then show ?case by simp
next
  case (Cons c cs)
  from feedback_run_calls [of "do_call a c" cs] obtain ys where
    "feedback (run_calls (do_call a c) cs) = feedback (do_call a c) @ ys"
    by blast
  with Cons.prems(2) have "feedback_in_range (feedback (do_call a c))"
    by (auto dest: feedback_in_range_append)
  with Cons.prems(1) have "score_ok (do_call a c)"
    by (rule score_ok_do_call)
  with Cons.prems(2) show ?case
    by (simp add: Cons.IH)
qed

text \<open>
  Claim C1. An Attachee that the constructor has returned and on which any sequence of
  its methods has been called has, as \<^verbatim>\<open>performanceScore\<close>, 0 when it has no feedback and
  otherwise the arithmetic mean of the scores of its feedback, rounded to the nearest
  integer with halves going up. \<^verbatim>\<open>addFeedback\<close> sets the score to the rounded mean of
  the scores including the new one, whatever the object was before; \<^verbatim>\<open>assignTask\<close>,
  \<^verbatim>\<open>completeTask\<close> and \<^verbatim>\<open>getPerformanceSummary\<close> leave the score as it is. The
  scores of the feedback are those of the data model, integers from 0 to 100: the
  program computes the sum and the quotient in doubles, and on these scores the rounding
  of the doubles does not change the result.
\<close>

theorem performanceScore_invariant:
  "(new_Attachee n e d = Inr a0 \<and> feedback_in_range (feedback (run_calls a0 cs)) \<longrightarrow>
      performanceScore (run_calls a0 cs) =
        (if feedback (run_calls a0 cs) = [] then num 0
         else num (round_half_up (mean (map score (feedback (run_calls a0 cs)))))))
   \<and> (feedback_in_range (feedback (addFeedback a feedbackText sc rv now)) \<longrightarrow>
        performanceScore (addFeedback a feedbackText sc rv now) =
          num (round_half_up (mean (map score (feedback a) @ [sc]))))
   \<and> performanceScore (assignTask a taskDescription dl prio) = performanceScore a
   \<and> performanceScore (completeTask a taskId cd) = performanceScore a
   \<and> performanceScore (snd (getPerformanceSummary a)) = performanceScore a"
proof -
  have 1: "performanceScore (run_calls a0 cs) =
        (if feedback (run_calls a0 cs) = [] then num 0
         else num (round_half_up (mean (map score (feedback (run_calls a0 cs))))))"
    if "new_Attachee n e d = Inr a0" and range: "feedback_in_range (feedback (run_calls a0 cs))"
  proof -
    have "score_ok a0"
      using new_Attachee_Inr [OF that(1)] by (simp add: score_ok_def)
    from score_ok_run_calls [OF this range] show ?thesis
      by (simp add: score_ok_def)
  qed
  have 2: "performanceScore (addFeedback a feedbackText sc rv now) =
       num (round_half_up (mean (map score (feedback a) @ [sc])))"
    if "feedback_in_range (feedback (addFeedback a feedbackText sc rv now))"
  proof -
    let ?b = "a\<lparr>feedback := feedback a @
            [\<lparr>text_f = feedbackText, score = sc, reviewer = rv, date = now\<rparr>]\<rparr>"
    have "feedback_in_range (feedback ?b)"
      using that by (simp add: addFeedback_def feedback_calculatePerformanceScore)
    from calculatePerformanceScore_eq [OF this] show ?thesis
      by (simp add: addFeedback_def)
  qed
  have 3: "performanceScore (assignTask a taskDescription dl prio) = performanceScore a"
    by (simp add: assignTask_def)
  have 4: "performanceScore (completeTask a taskId cd) = performanceScore a"
    by (simp add: completeTask_def split: option.splits)
  have 5: "performanceScore (snd (getPerformanceSummary a)) = performanceScore a"
    by (simp add: getPerformanceSummary_def Let_def)
  from 1 2 3 4 5 show ?thesis by blast
qed

text \<open>
  The scores 95 and 82 have the mean 88.5, and the score of the attachee is 89.
\<close>

theorem performanceScore_invariant_witness:
  "new_Attachee ''Omar'' ''omar@example.com'' ''Engineering'' =
     Inr \<lparr>name = ''Omar'', email = ''omar@example.com'', division = ''Engineering'',
          tasks = [], feedback = [], performanceScore = num 0\<rparr>
   \<and> map score (feedback (run_calls
          \<lparr>name = ''Omar'', email = ''omar@example.com'', division = ''Engineering'',
           tasks = [], feedback = [], performanceScore = num 0\<rparr>
          [AddFeedback ''good'' 95 ''A'' ''t1'', AssignTask ''api'' ''d'' 4,
           AddFeedback ''fair'' 82 ''B'' ''t2''])) = [95, 82]
   \<and> performanceScore
       (run_calls
          \<lparr>name = ''Omar'', email = ''omar@example.com'', division = ''Engineering'',
           tasks = [], feedback = [], performanceScore = num 0\<rparr>
          [AddFeedback ''good'' 95 ''A'' ''t1'', AssignTask ''api'' ''d'' 4,
           AddFeedback ''fair'' 82 ''B'' ''t2'']) = num 89"
proof -
  let ?a0 = "\<lparr>name = ''Omar'', email = ''omar@example.com'', division = ''Engineering'',
          tasks = [], feedback = [], performanceScore = num 0\<rparr>"
  let ?cs = "[AddFeedback ''good'' 95 ''A'' ''t1'', AssignTask ''api'' ''d'' 4,
           AddFeedback ''fair'' 82 ''B'' ''t2'']"
  have h: "new_Attachee ''Omar'' ''omar@example.com'' ''Engineering'' = Inr ?a0"
    by (simp add: new_Attachee_def validateDivision_def validDivisions_def)
  have f: "map score (feedback (run_calls ?a0 ?cs)) = [95, 82]"
    by (simp add: addFeedback_def assignTask_def feedback_calculatePerformanceScore)
  then have fb: "feedback (run_calls ?a0 ?cs) \<noteq> []"
    by auto
  have range: "feedback_in_range (feedback (run_calls ?a0 ?cs))"
    unfolding feedback_in_range_def f by (simp add: scores_in_range_def)
  have r: "round_half_up (mean [95, 82]) = 89"
    by (simp add: round_half_up_def mean_def)
  have "performanceScore (run_calls ?a0 ?cs) =
          (if feedback (run_calls ?a0 ?cs) = [] then num 0
           else num (round_half_up (mean (map score (feedback (run_calls ?a0 ?cs))))))"
    using performanceScore_invariant [of "''Omar''" "''omar@example.com''" "''Engineering''"
        ?a0 ?cs] h range by blast
  with fb f r have "performanceScore (run_calls ?a0 ?cs) = num 89"
    by metis
  with h f show ?thesis by blast
qed

subsection \<open>Attachee: construction\<close>

lemma join_validDivisions:
  "''Invalid division. Must be one of: '' @ join validDivisions '', '' =
   ''Invalid division. Must be one of: Engineering, Tech Programs, Radio Support, Hub Support''"
  by (simp add: validDivisions_def)

text \<open>
  Claim C5. The constructor throws exactly when the division is none of Engineering,
  Tech Programs, Radio Support and Hub Support, and the message of the error lists the
  four. The program throws a plain \<^verbatim>\<open>Error\<close>; it is the only error that the constructor
  throws, and the one the specification calls InvalidDivisionError. \<^verbatim>\<open>addAttachee\<close>
  passes the error on as it is and leaves the roster as it was; when the constructor
  returns, the new attachee has no tasks, no feedback and the score 0, and it is
  the last entry of the roster.
\<close>

theorem new_Attachee_validates:
  "set validDivisions = {''Engineering'', ''Tech Programs'', ''Radio Support'', ''Hub Support''}
   \<and> (d \<notin> set validDivisions \<longrightarrow>
        new_Attachee n e d =
          Inl (Error ''Invalid division. Must be one of: Engineering, Tech Programs, Radio Support, Hub Support'')
        \<and> addAttachee m n e d = (new_Attachee n e d, m))
   \<and> (d \<in> set validDivisions \<longrightarrow>
        new_Attachee n e d =
          Inr \<lparr>name = n, email = e, division = d, tasks = [], feedback = [],
               performanceScore = num 0\<rparr>
        \<and> addAttachee m n e d =
            (new_Attachee n e d,
             m\<lparr>attachees := attachees m @
                [\<lparr>name = n, email = e, division = d, tasks = [], feedback = [],
                  performanceScore = num 0\<rparr>]\<rparr>))"
proof -
  have 1: "set validDivisions =
      {''Engineering'', ''Tech Programs'', ''Radio Support'', ''Hub Support''}"
    by (simp add: validDivisions_def)
  have 2: "new_Attachee n e d =
          Inl (Error ''Invalid division. Must be one of: Engineering, Tech Programs, Radio Support, Hub Support'')
        \<and> addAttachee m n e d = (new_Attachee n e d, m)"
    if "d \<notin> set validDivisions"
    using that join_validDivisions
    by (simp add: new_Attachee_def validateDivision_def addAttachee_def)
  have 3: "new_Attachee n e d =
          Inr \<lparr>name = n, email = e, division = d, tasks = [], feedback = [],
               performanceScore = num 0\<rparr>
        \<and> addAttachee m n e d =
            (new_Attachee n e d,
             m\<lparr>attachees := attachees m @
                [\<lparr>name = n, email = e, division = d, tasks = [], feedback = [],
                  performanceScore = num 0\<rparr>]\<rparr>)"
    if "d \<in> set validDivisions"
    using that by (simp add: new_Attachee_def validateDivision_def addAttachee_def)
  from 1 2 3 show ?thesis by blast
qed

text \<open>
  The division Marketing is refused and Hub Support is accepted.
\<close>

theorem new_Attachee_validates_witness:
  "''Marketing'' \<notin> set validDivisions
   \<and> addAttachee new_TaskManager ''Ann'' ''ann@example.com'' ''Marketing'' =
       (Inl (Error ''Invalid division. Must be one of: Engineering, Tech Programs, Radio Support, Hub Support''),
        new_TaskManager)
   \<and> ''Hub Support'' \<in> set validDivisions
   \<and> addAttachee new_TaskManager ''Ann'' ''ann@example.com'' ''Hub Support'' =
       (Inr \<lparr>name = ''Ann'', email = ''ann@example.com'', division = ''Hub Support'',
             tasks = [], feedback = [], performanceScore = num 0\<rparr>,
        \<lparr>attachees = [\<lparr>name = ''Ann'', email = ''ann@example.com'',
             division = ''Hub Support'', tasks = [], feedback = [], performanceScore = num 0\<rparr>]\<rparr>)"
proof -
  have a: "''Marketing'' \<notin> set validDivisions"
    by (simp add: validDivisions_def)
  have b: "''Hub Support'' \<in> set validDivisions"
    by (simp add: validDivisions_def)
  from a new_Attachee_validates
    [of "''Marketing''" "''Ann''" "''ann@example.com''" new_TaskManager]
  have c: "addAttachee new_TaskManager ''Ann'' ''ann@example.com'' ''Marketing'' =
       (Inl (Error ''Invalid division. Must be one of: Engineering, Tech Programs, Radio Support, Hub Support''),
        new_TaskManager)"
    by simp
  from b new_Attachee_validates
    [of "''Hub Support''" "''Ann''" "''ann@example.com''" new_TaskManager]
  have d: "addAttachee new_TaskManager ''Ann'' ''ann@example.com'' ''Hub Support'' =
       (Inr \<lparr>name = ''Ann'', email = ''ann@example.com'', division = ''Hub Support'',
             tasks = [], feedback = [], performanceScore = num 0\<rparr>,
        \<lparr>attachees = [\<lparr>name = ''Ann'', email = ''ann@example.com'',
             division = ''Hub Support'', tasks = [], feedback = [], performanceScore = num 0\<rparr>]\<rparr>)"
    by (simp add: new_TaskManager_def)
  from a b c d show ?thesis by blast
qed

subsection \<open>Attachee: tasks\<close>

lemma tasks_completeTask:
  "map id_t (tasks (completeTask a taskId cd)) = map id_t (tasks a)
   \<and> length (tasks (completeTask a taskId cd)) = length (tasks a)"
  by (simp add: completeTask_def map_update_same split: option.splits)

lemma tasks_addFeedback: "tasks (addFeedback a feedbackText sc rv now) = tasks a"
  by (simp add: addFeedback_def calculatePerformanceScore_def Let_def)

lemma tasks_calculatePerformanceScore: "tasks (calculatePerformanceScore a) = tasks a"
  by (simp add: calculatePerformanceScore_def Let_def)

lemma ids_dense_assignTask: "ids_dense a \<Longrightarrow> ids_dense (assignTask a taskDescription dl prio)"
  by (simp add: ids_dense_def assignTask_def upto_snoc)

lemma ids_dense_addFeedback: "ids_dense a \<Longrightarrow> ids_dense (addFeedback a feedbackText sc rv now)"
  by (simp add: ids_dense_def tasks_addFeedback)

lemma ids_dense_do_call: "ids_dense a \<Longrightarrow> ids_dense (do_call a c)"
proof (cases c)
  case (AssignTask x1 x2 x3)
  assume "ids_dense a"
  with AssignTask show ?thesis by (simp add: ids_dense_assignTask)
next
  case (CompleteTask x1 x2)
  assume "ids_dense a"
  with CompleteTask show ?thesis by (simp add: ids_dense_def tasks_completeTask)
next
  case (AddFeedback x1 x2 x3 x4)
  assume "ids_dense a"
  with AddFeedback show ?thesis by (simp add: ids_dense_def tasks_addFeedback)
next
  case CalculatePerformanceScore
  assume "ids_dense a"
  with CalculatePerformanceScore show ?thesis
    by (simp add: ids_dense_def tasks_calculatePerformanceScore)
next
  case GetPerformanceSummary
  assume "ids_dense a"
  with GetPerformanceSummary show ?thesis by (simp add: snd_getPerformanceSummary)
qed

lemma length_tasks_do_call:
  "length (tasks (do_call a c)) = length (tasks a) + (if is_AssignTask c then 1 else 0)"
  by (cases c)
     (simp_all add: assignTask_def tasks_completeTask tasks_addFeedback
        tasks_calculatePerformanceScore snd_getPerformanceSummary)

lemma ids_dense_run_calls: "ids_dense a \<Longrightarrow> ids_dense (run_calls a cs)"
  by (induction cs arbitrary: a) (auto intro: ids_dense_do_call)

lemma length_tasks_run_calls:
  "length (tasks (run_calls a cs)) = length (tasks a) + length (filter is_AssignTask cs)"
  by (induction cs arbitrary: a) (auto simp: length_tasks_do_call)

lemma new_Attachee_dense: "new_Attachee n e d = Inr a \<Longrightarrow> ids_dense a"
  by (auto simp: new_Attachee_def ids_dense_def split: sum.splits)

lemma roster_dense_do_tm_call: "roster_dense m \<Longrightarrow> roster_dense (do_tm_call m c)"
proof (cases c)
  case (AddAttachee n e d)
  assume "roster_dense m"
  with AddAttachee show ?thesis
    by (auto simp: roster_dense_def addAttachee_def new_Attachee_dense split: sum.splits)
next
  case (RemoveAttachee e)
  assume "roster_dense m"
  with RemoveAttachee show ?thesis
    by (simp add: roster_dense_def removeAttachee_def list_all_iff)
next
  case (AssignTaskToDivision d td dl prio)
  assume "roster_dense m"
  with AssignTaskToDivision show ?thesis
    by (auto simp: roster_dense_def assignTaskToDivision_def list_all_iff ids_dense_assignTask)
next
  case (AssignTaskToAttachee e td dl prio)
  assume "roster_dense m"
  with AssignTaskToAttachee show ?thesis
    by (auto simp: roster_dense_def assignTaskToAttachee_def ids_dense_assignTask
          split: option.splits dest!: find_ref_Some intro: list_all_update_nth)
next
  case (AddFeedbackToAttachee e ft sc rv now)
  assume "roster_dense m"
  with AddFeedbackToAttachee show ?thesis
    by (auto simp: roster_dense_def addFeedbackToAttachee_def ids_dense_addFeedback
          split: option.splits dest!: find_ref_Some intro: list_all_update_nth)
next
  case (OnAttachee i c')
  assume "roster_dense m"
  with OnAttachee show ?thesis
    by (auto simp: roster_dense_def ids_dense_do_call intro: list_all_update_nth)
qed

lemma roster_dense_run_tm_calls: "roster_dense m \<Longrightarrow> roster_dense (run_tm_calls m cs)"
  by (induction cs arbitrary: m) (auto intro: roster_dense_do_tm_call)

text \<open>
  Claim C7. \<^verbatim>\<open>assignTask\<close> appends a task whose id is the number of tasks so far plus
  one, not completed and without a completion date. An attachee from the constructor has,
  after any sequence of calls of its methods, the task ids 1 to n in the order of
  creation, where n is the number of \<^verbatim>\<open>assignTask\<close> calls in the sequence. The same
  holds for every attachee of a roster after any sequence of calls on the manager and
  on its attachees, however many attachees there are.
\<close>

theorem assignTask_ids_dense:
  "tasks (assignTask a taskDescription dl prio) =
     tasks a @ [\<lparr>id_t = int (length (tasks a)) + 1, description = taskDescription,
                  deadline = dl, priority = prio, completed = False,
                  completionDate = None\<rparr>]
   \<and> (new_Attachee n e d = Inr a0 \<longrightarrow>
        map id_t (tasks (run_calls a0 cs)) = [1..int (length (filter is_AssignTask cs))])
   \<and> (\<forall>b \<in> set (attachees (run_tm_calls new_TaskManager ms)).
        map id_t (tasks b) = [1..int (length (tasks b))])"
proof -
  have 1: "tasks (assignTask a taskDescription dl prio) =
     tasks a @ [\<lparr>id_t = int (length (tasks a)) + 1, description = taskDescription,
                  deadline = dl, priority = prio, completed = False,
                  completionDate = None\<rparr>]"
    by (simp add: assignTask_def)
  have 2: "map id_t (tasks (run_calls a0 cs)) = [1..int (length (filter is_AssignTask cs))]"
    if h: "new_Attachee n e d = Inr a0"
  proof -
    from h have "tasks a0 = []"
      by (auto simp: new_Attachee_def split: sum.splits)
    then have "length (tasks (run_calls a0 cs)) = length (filter is_AssignTask cs)"
      by (simp add: length_tasks_run_calls)
    moreover have "ids_dense (run_calls a0 cs)"
      using h by (intro ids_dense_run_calls new_Attachee_dense)
    ultimately show ?thesis by (simp add: ids_dense_def)
  qed
  have "roster_dense new_TaskManager"
    by (simp add: roster_dense_def new_TaskManager_def)
  then have "roster_dense (run_tm_calls new_TaskManager ms)"
    by (rule roster_dense_run_tm_calls)
  then have 3: "\<forall>b \<in> set (attachees (run_tm_calls new_TaskManager ms)).
        map id_t (tasks b) = [1..int (length (tasks b))]"
    by (simp add: roster_dense_def list_all_iff ids_dense_def)
  from 1 2 3 show ?thesis by blast
qed

text \<open>
  Three assignments to one attachee give the ids 1, 2, 3; in the example of the file,
  with five attachees, Martin John has the ids 1, 2.
\<close>

theorem assignTask_ids_dense_witness:
  "new_Attachee ''Omar Haitham'' ''omarhaitham@example.com'' ''Engineering'' =
     Inr \<lparr>name = ''Omar Haitham'', email = ''omarhaitham@example.com'',
          division = ''Engineering'', tasks = [], feedback = [], performanceScore = num 0\<rparr>
   \<and> map id_t (tasks (run_calls
         \<lparr>name = ''Omar Haitham'', email = ''omarhaitham@example.com'',
          division = ''Engineering'', tasks = [], feedback = [], performanceScore = num 0\<rparr>
         [AssignTask ''Develop API'' ''2023-06-15'' 4, CompleteTask 1 ''2023-06-08'',
          AssignTask ''Review code'' ''2023-06-10'' 3, AddFeedback ''Good'' 95 ''A'' ''t1'',
          AssignTask ''Write docs'' ''2023-06-20'' 1])) = [1, 2, 3]
   \<and> length (attachees (hubManager ''t1'' ''t2'' ''t3'')) = 5
   \<and> map id_t (tasks (attachees (hubManager ''t1'' ''t2'' ''t3'') ! 1)) = [1, 2]"
proof -
  let ?a0 = "\<lparr>name = ''Omar Haitham'', email = ''omarhaitham@example.com'',
          division = ''Engineering'', tasks = [], feedback = [], performanceScore = num 0\<rparr>"
  let ?cs = "[AssignTask ''Develop API'' ''2023-06-15'' 4, CompleteTask 1 ''2023-06-08'',
          AssignTask ''Review code'' ''2023-06-10'' 3, AddFeedback ''Good'' 95 ''A'' ''t1'',
          AssignTask ''Write docs'' ''2023-06-20'' 1]"
  let ?m = "hubManager ''t1'' ''t2'' ''t3''"
  let ?ms = "[AddAttachee ''Omar Haitham'' ''omarhaitham@example.com'' ''Engineering'',
        AddAttachee ''Martin John'' ''martin@example.com'' ''Engineering'',
        AddAttachee ''Mary Brown'' ''maryb@example.com'' ''Tech Programs'',
        AddAttachee ''Diana Charles'' ''diana@example.com'' ''Radio Support'',
        AddAttachee ''Cynthia Adams'' ''cyadams@example.com'' ''Hub Support'',
        AssignTaskToDivision ''Engineering'' ''Develop API endpoint for user management''
          ''2023-06-15'' 4,
        AssignTaskToAttachee ''omarhaitham@example.com'' ''Review code quality standards''
          ''2023-06-10'' 3,
        AssignTaskToAttachee ''martin@example.com'' ''Optimize database queries''
          ''2023-06-12'' 5,
        OnAttachee 0 (CompleteTask 1 ''2023-06-08''),
        OnAttachee 0 (CompleteTask 2 ''2023-06-09''),
        AddFeedbackToAttachee ''omarhaitham@example.com''
          ''Excellent work on the API development!'' 95 ''Supervisor A'' ''t1'',
        AddFeedbackToAttachee ''martin@example.com''
          ''Good progress, needs more attention to detail'' 82 ''Supervisor B'' ''t2'',
        AddFeedbackToAttachee ''maryb@example.com''
          ''Outstanding contribution to the tech program'' 98 ''Supervisor C'' ''t3'']"
  have m: "?m = run_tm_calls new_TaskManager ?ms"
    by (simp only: hubManager_def)
  note dense = assignTask_ids_dense [where n = "''Omar Haitham''"
      and e = "''omarhaitham@example.com''" and d = "''Engineering''" and ?a0.0 = ?a0
      and cs = ?cs and ms = ?ms, folded m]
  have h: "new_Attachee ''Omar Haitham'' ''omarhaitham@example.com'' ''Engineering'' = Inr ?a0"
    by (simp add: new_Attachee_def validateDivision_def validDivisions_def)
  have "map id_t (tasks (run_calls ?a0 ?cs)) = [1..int (length (filter is_AssignTask ?cs))]"
    using dense h by blast
  then have 1: "map id_t (tasks (run_calls ?a0 ?cs)) = [1, 2, 3]"
    by (simp add: upto_rec1)
  have 2: "length (attachees ?m) = 5"
    by (simp add: hubManager_value)
  then have "attachees ?m ! 1 \<in> set (attachees ?m)"
    by (intro nth_mem) simp
  with dense have "map id_t (tasks (attachees ?m ! 1)) =
      [1..int (length (tasks (attachees ?m ! 1)))]"
    by blast
  moreover have "length (tasks (attachees ?m ! 1)) = 2"
    by (simp add: hubManager_value)
  ultimately have 3: "map id_t (tasks (attachees ?m ! 1)) = [1, 2]"
    by (simp add: upto_rec1)
  from h 1 2 3 show ?thesis by blast
qed

text \<open>
  Claim C8. \<^verbatim>\<open>getPerformanceSummary\<close> returns the name, the division, the score, the
  number of tasks, the number of completed tasks, the number of tasks that are not
  completed, which is the number of tasks minus the number of completed ones, and the
  number of feedback entries; the object after the call is the object before it.
\<close>

theorem getPerformanceSummary_fields:
  "getPerformanceSummary a =
     (\<lparr>name_s = name a, division_s = division a, performanceScore_s = performanceScore a,
       tasksAssigned = length (tasks a),
       tasksCompleted = length (filter (\<lambda>t. completed t) (tasks a)),
       tasksPending = length (filter (\<lambda>t. \<not> completed t) (tasks a)),
       feedbackCount = length (feedback a)\<rparr>, a)
   \<and> int (tasksPending (fst (getPerformanceSummary a))) =
       int (tasksAssigned (fst (getPerformanceSummary a)))
       - int (tasksCompleted (fst (getPerformanceSummary a)))"
proof -
  have "length (filter (\<lambda>t. completed t) (tasks a))
        + length (filter (\<lambda>t. \<not> completed t) (tasks a)) = length (tasks a)"
    by (rule sum_length_filter_compl)
  then have "length (tasks a) - length (filter (\<lambda>t. completed t) (tasks a)) =
      length (filter (\<lambda>t. \<not> completed t) (tasks a))"
    by simp
  then have 1: "getPerformanceSummary a =
     (\<lparr>name_s = name a, division_s = division a, performanceScore_s = performanceScore a,
       tasksAssigned = length (tasks a),
       tasksCompleted = length (filter (\<lambda>t. completed t) (tasks a)),
       tasksPending = length (filter (\<lambda>t. \<not> completed t) (tasks a)),
       feedbackCount = length (feedback a)\<rparr>, a)"
    by (simp add: getPerformanceSummary_def Let_def)
  have "length (filter (\<lambda>t. completed t) (tasks a)) \<le> length (tasks a)"
    by (rule length_filter_le)
  then have 2: "int (tasksPending (fst (getPerformanceSummary a))) =
       int (tasksAssigned (fst (getPerformanceSummary a)))
       - int (tasksCompleted (fst (getPerformanceSummary a)))"
    by (simp add: getPerformanceSummary_def Let_def)
  from 1 2 show ?thesis by (rule conjI)
qed

lemma completeTask_found:
  "find_ref (\<lambda>t. id_t t = taskId) (tasks b) = Some i \<Longrightarrow>
   completeTask b taskId cd =
     b\<lparr>tasks := (tasks b)[i := (tasks b ! i)\<lparr>completed := True,
                                             completionDate := Some cd\<rparr>]\<rparr>"
  by (simp add: completeTask_def)

text \<open>
  Claim C9. When the attachee has a task with the given id (\<open>i\<close> is the index of the
  first one), \<^verbatim>\<open>completeTask\<close> changes that task only, and of it only \<^verbatim>\<open>completed\<close>,
  which becomes true, and \<^verbatim>\<open>completionDate\<close>, which becomes the given date, also when
  the task was completed before. A second call with the same id and date changes
  nothing, and a call after an earlier completion gives the state that the call alone
  gives.
\<close>

theorem completeTask_idempotent:
  assumes "i < length (tasks a)" and "id_t (tasks a ! i) = taskId"
    and "\<forall>j < i. id_t (tasks a ! j) \<noteq> taskId"
  shows "completeTask a taskId d2 =
           a\<lparr>tasks := (tasks a)[i := (tasks a ! i)\<lparr>completed := True,
                                                   completionDate := Some d2\<rparr>]\<rparr>
         \<and> completed (tasks (completeTask a taskId d2) ! i)
         \<and> completionDate (tasks (completeTask a taskId d2) ! i) = Some d2
         \<and> completeTask (completeTask a taskId d2) taskId d2 = completeTask a taskId d2
         \<and> completeTask (completeTask a taskId d1) taskId d2 = completeTask a taskId d2"
proof -
  let ?P = "\<lambda>t. id_t t = taskId"
  have f: "find_ref ?P (tasks a) = Some i"
    using assms by (intro find_ref_first) auto
  have eq: "completeTask a taskId cd =
           a\<lparr>tasks := (tasks a)[i := (tasks a ! i)\<lparr>completed := True,
                                                   completionDate := Some cd\<rparr>]\<rparr>" for cd
    using f by (rule completeTask_found)
  have f': "find_ref ?P (tasks (completeTask a taskId cd)) = Some i" for cd
    using assms(2) by (simp add: eq find_ref_update [OF f])
  have again: "completeTask (completeTask a taskId cd) taskId d2 = completeTask a taskId d2"
    for cd
  proof -
    have "completeTask (completeTask a taskId cd) taskId d2 =
        (completeTask a taskId cd)\<lparr>tasks := (tasks (completeTask a taskId cd))
           [i := (tasks (completeTask a taskId cd) ! i)\<lparr>completed := True,
                                             completionDate := Some d2\<rparr>]\<rparr>"
      using f' by (rule completeTask_found)
    also have "\<dots> = completeTask a taskId d2"
      using assms(1) by (simp add: eq)
    finally show ?thesis .
  qed
  show ?thesis
    using assms(1) eq [of d2] again [of d2] again [of d1] by simp
qed

text \<open>
  Omar Haitham's second task, completed on 2023-06-09 in the example, is completed
  again on 2023-06-30.
\<close>

theorem completeTask_idempotent_witness:
  "1 < length (tasks (attachees (hubManager ''t1'' ''t2'' ''t3'') ! 0))
   \<and> id_t (tasks (attachees (hubManager ''t1'' ''t2'' ''t3'') ! 0) ! 1) = 2
   \<and> id_t (tasks (attachees (hubManager ''t1'' ''t2'' ''t3'') ! 0) ! 0) \<noteq> 2
   \<and> completionDate (tasks (attachees (hubManager ''t1'' ''t2'' ''t3'') ! 0) ! 1) =
       Some ''2023-06-09''
   \<and> completed (tasks (completeTask (attachees (hubManager ''t1'' ''t2'' ''t3'') ! 0) 2
         ''2023-06-30'') ! 1)
   \<and> completionDate (tasks (completeTask (attachees (hubManager ''t1'' ''t2'' ''t3'') ! 0) 2
         ''2023-06-30'') ! 1) = Some ''2023-06-30''
   \<and> completeTask (completeTask (attachees (hubManager ''t1'' ''t2'' ''t3'') ! 0) 2
         ''2023-06-30'') 2 ''2023-06-30'' =
       completeTask (attachees (hubManager ''t1'' ''t2'' ''t3'') ! 0) 2 ''2023-06-30''"
proof -
  let ?a = "attachees (hubManager ''t1'' ''t2'' ''t3'') ! 0"
  have 1: "1 < length (tasks ?a)"
    by (simp add: hubManager_value)
  have 2: "id_t (tasks ?a ! 1) = 2"
    by (simp add: hubManager_value)
  have 3: "id_t (tasks ?a ! 0) \<noteq> 2"
    by (simp add: hubManager_value)
  then have 4: "\<forall>j < 1. id_t (tasks ?a ! j) \<noteq> 2"
    by simp
  have 5: "completionDate (tasks ?a ! 1) = Some ''2023-06-09''"
    by (simp add: hubManager_value)
  from completeTask_idempotent [OF 1 2 4, of "''2023-06-30''" "''2023-06-30''"] 1 2 3 5
  show ?thesis by blast
qed

subsection \<open>Identities that are not found\<close>

text \<open>
  Claim C6. \<^verbatim>\<open>completeTask\<close> with an id that no task of the attachee has returns the
  attachee as it was; \<^verbatim>\<open>assignTaskToAttachee\<close> and \<^verbatim>\<open>addFeedbackToAttachee\<close> with an
  email that no attachee of the roster has return the manager as it was. None of the
  three has a path that throws.
\<close>

theorem not_found_is_no_op:
  "(taskId \<notin> id_t ` set (tasks a) \<longrightarrow> completeTask a taskId cd = a)
   \<and> (e \<notin> email ` set (attachees m) \<longrightarrow>
        assignTaskToAttachee m e taskDescription dl prio = m
        \<and> addFeedbackToAttachee m e feedbackText sc rv now = m)"
proof -
  have 1: "completeTask a taskId cd = a" if "taskId \<notin> id_t ` set (tasks a)"
  proof -
    from that have "find_ref (\<lambda>t. id_t t = taskId) (tasks a) = None"
      by (auto simp: find_ref_None_iff)
    then show ?thesis by (simp add: completeTask_def)
  qed
  have 2: "assignTaskToAttachee m e taskDescription dl prio = m
        \<and> addFeedbackToAttachee m e feedbackText sc rv now = m"
    if "e \<notin> email ` set (attachees m)"
  proof -
    from that have "find_ref (\<lambda>a. email a = e) (attachees m) = None"
      by (auto simp: find_ref_None_iff)
    then show ?thesis
      by (simp add: assignTaskToAttachee_def addFeedbackToAttachee_def)
  qed
  from 1 2 show ?thesis by blast
qed

text \<open>
  In the example no task of Omar Haitham has the id 7 and no attachee has the email
  nobody@example.com.
\<close>

theorem not_found_is_no_op_witness:
  "7 \<notin> id_t ` set (tasks (attachees (hubManager ''t1'' ''t2'' ''t3'') ! 0))
   \<and> completeTask (attachees (hubManager ''t1'' ''t2'' ''t3'') ! 0) 7 ''2023-06-20'' =
       attachees (hubManager ''t1'' ''t2'' ''t3'') ! 0
   \<and> ''nobody@example.com'' \<notin> email ` set (attachees (hubManager ''t1'' ''t2'' ''t3''))
   \<and> assignTaskToAttachee (hubManager ''t1'' ''t2'' ''t3'') ''nobody@example.com''
         ''Write docs'' ''2023-07-01'' 2 = hubManager ''t1'' ''t2'' ''t3''
   \<and> addFeedbackToAttachee (hubManager ''t1'' ''t2'' ''t3'') ''nobody@example.com''
         ''Fine'' 70 ''Supervisor D'' ''t4'' = hubManager ''t1'' ''t2'' ''t3''"
proof -
  let ?m = "hubManager ''t1'' ''t2'' ''t3''"
  have a: "7 \<notin> id_t ` set (tasks (attachees ?m ! 0))"
    by (simp add: hubManager_value)
  have b: "''nobody@example.com'' \<notin> email ` set (attachees ?m)"
    by (simp add: hubManager_value)
  from a b not_found_is_no_op [of 7 "attachees ?m ! 0" "''2023-06-20''" "''nobody@example.com''"
      ?m "''Write docs''" "''2023-07-01''" 2 "''Fine''" 70 "''Supervisor D''" "''t4''"]
  show ?thesis by blast
qed

subsection \<open>TaskManager: several attachees with one email\<close>

text \<open>
  Claim C10. When \<open>i\<close> is the first index of the roster whose attachee has the email,
  \<^verbatim>\<open>assignTaskToAttachee\<close> and \<^verbatim>\<open>addFeedbackToAttachee\<close> change the attachee at \<open>i\<close> and
  no other, also no later one with the same email; \<^verbatim>\<open>removeAttachee\<close> keeps exactly
  the attachees with another email, so that none with the email is left.
\<close>

theorem duplicate_emails:
  assumes "i < length (attachees m)" and "email (attachees m ! i) = e"
    and "\<forall>j < i. email (attachees m ! j) \<noteq> e"
  shows "assignTaskToAttachee m e taskDescription dl prio =
           m\<lparr>attachees :=
               (attachees m)[i := assignTask (attachees m ! i) taskDescription dl prio]\<rparr>
         \<and> addFeedbackToAttachee m e feedbackText sc rv now =
           m\<lparr>attachees :=
               (attachees m)[i := addFeedback (attachees m ! i) feedbackText sc rv now]\<rparr>
         \<and> (\<forall>k < length (attachees m). k \<noteq> i \<longrightarrow>
              attachees (assignTaskToAttachee m e taskDescription dl prio) ! k = attachees m ! k
              \<and> attachees (addFeedbackToAttachee m e feedbackText sc rv now) ! k
                  = attachees m ! k)
         \<and> attachees (removeAttachee m e) = filter (\<lambda>a. email a \<noteq> e) (attachees m)
         \<and> e \<notin> email ` set (attachees (removeAttachee m e))"
proof -
  have f: "find_ref (\<lambda>a. email a = e) (attachees m) = Some i"
    using assms by (intro find_ref_first) auto
  have 1: "assignTaskToAttachee m e taskDescription dl prio =
           m\<lparr>attachees :=
               (attachees m)[i := assignTask (attachees m ! i) taskDescription dl prio]\<rparr>"
    using f by (simp add: assignTaskToAttachee_def)
  have 2: "addFeedbackToAttachee m e feedbackText sc rv now =
           m\<lparr>attachees :=
               (attachees m)[i := addFeedback (attachees m ! i) feedbackText sc rv now]\<rparr>"
    using f by (simp add: addFeedbackToAttachee_def)
  have 3: "\<forall>k < length (attachees m). k \<noteq> i \<longrightarrow>
              attachees (assignTaskToAttachee m e taskDescription dl prio) ! k = attachees m ! k
              \<and> attachees (addFeedbackToAttachee m e feedbackText sc rv now) ! k
                  = attachees m ! k"
    by (simp add: 1 2)
  have 4: "attachees (removeAttachee m e) = filter (\<lambda>a. email a \<noteq> e) (attachees m)"
    by (simp add: removeAttachee_def)
  have 5: "e \<notin> email ` set (attachees (removeAttachee m e))"
    by (auto simp: 4)
  from 1 2 3 4 5 show ?thesis by blast
qed

text \<open>
  A roster in which the second and the third attachee share an email.
\<close>

theorem duplicate_emails_witness:
  "map email (attachees (run_tm_calls new_TaskManager
       [AddAttachee ''Ann'' ''ann@example.com'' ''Engineering'',
        AddAttachee ''Bob'' ''shared@example.com'' ''Hub Support'',
        AddAttachee ''Cy'' ''shared@example.com'' ''Radio Support''])) =
     [''ann@example.com'', ''shared@example.com'', ''shared@example.com'']
   \<and> map (length \<circ> tasks) (attachees (assignTaskToAttachee (run_tm_calls new_TaskManager
       [AddAttachee ''Ann'' ''ann@example.com'' ''Engineering'',
        AddAttachee ''Bob'' ''shared@example.com'' ''Hub Support'',
        AddAttachee ''Cy'' ''shared@example.com'' ''Radio Support''])
         ''shared@example.com'' ''Write docs'' ''2023-07-01'' 2)) = [0, 1, 0]
   \<and> map performanceScore (attachees (addFeedbackToAttachee (run_tm_calls new_TaskManager
       [AddAttachee ''Ann'' ''ann@example.com'' ''Engineering'',
        AddAttachee ''Bob'' ''shared@example.com'' ''Hub Support'',
        AddAttachee ''Cy'' ''shared@example.com'' ''Radio Support''])
         ''shared@example.com'' ''Fine'' 70 ''Supervisor D'' ''t4'')) = [num 0, num 70, num 0]
   \<and> map name (attachees (removeAttachee (run_tm_calls new_TaskManager
       [AddAttachee ''Ann'' ''ann@example.com'' ''Engineering'',
        AddAttachee ''Bob'' ''shared@example.com'' ''Hub Support'',
        AddAttachee ''Cy'' ''shared@example.com'' ''Radio Support''])
         ''shared@example.com'')) = [''Ann'']"
proof -
  define m where "m = run_tm_calls new_TaskManager
       [AddAttachee ''Ann'' ''ann@example.com'' ''Engineering'',
        AddAttachee ''Bob'' ''shared@example.com'' ''Hub Support'',
        AddAttachee ''Cy'' ''shared@example.com'' ''Radio Support'']"
  let ?e = "''shared@example.com''"
  have m: "attachees m =
      [\<lparr>name = ''Ann'', email = ''ann@example.com'', division = ''Engineering'',
         tasks = [], feedback = [], performanceScore = num 0\<rparr>,
       \<lparr>name = ''Bob'', email = ''shared@example.com'', division = ''Hub Support'',
         tasks = [], feedback = [], performanceScore = num 0\<rparr>,
       \<lparr>name = ''Cy'', email = ''shared@example.com'', division = ''Radio Support'',
         tasks = [], feedback = [], performanceScore = num 0\<rparr>]"
    by (simp add: m_def eval_defs)
  have 1: "1 < length (attachees m)"
    by (simp add: m)
  have 2: "email (attachees m ! 1) = ?e"
    by (simp add: m)
  have 3: "\<forall>j < 1. email (attachees m ! j) \<noteq> ?e"
    by (simp add: m)
  note dup = duplicate_emails [OF 1 2 3]
  have a: "assignTaskToAttachee m ?e ''Write docs'' ''2023-07-01'' 2 =
      m\<lparr>attachees := (attachees m)
         [1 := assignTask (attachees m ! 1) ''Write docs'' ''2023-07-01'' 2]\<rparr>"
    using dup by blast
  have b: "addFeedbackToAttachee m ?e ''Fine'' 70 ''Supervisor D'' ''t4'' =
      m\<lparr>attachees := (attachees m)
         [1 := addFeedback (attachees m ! 1) ''Fine'' 70 ''Supervisor D'' ''t4'']\<rparr>"
    using dup by blast
  have c: "attachees (removeAttachee m ?e) = filter (\<lambda>a. email a \<noteq> ?e) (attachees m)"
    using dup by blast
  have e: "map email (attachees m) = [''ann@example.com'', ?e, ?e]"
    by (simp add: m)
  have a': "map (length \<circ> tasks)
      (attachees (assignTaskToAttachee m ?e ''Write docs'' ''2023-07-01'' 2)) = [0, 1, 0]"
    by (simp add: a m assignTask_def)
  have b': "map performanceScore
      (attachees (addFeedbackToAttachee m ?e ''Fine'' 70 ''Supervisor D'' ''t4'')) = [num 0, num 70, num 0]"
    by (simp add: b m eval_defs)
  have c': "map name (attachees (removeAttachee m ?e)) = [''Ann'']"
    by (simp add: c m)
  from e a' b' c' show ?thesis
    unfolding m_def by blast
qed

subsection \<open>TaskManager: the performance report\<close>

text \<open>
  The divisions of a roster stay among the four: the constructor checks the division
  and no method assigns to it.
\<close>

lemma division_do_call: "division (do_call a c) = division a"
  by (cases c)
     (simp_all add: assignTask_def completeTask_def addFeedback_def
        calculatePerformanceScore_def Let_def snd_getPerformanceSummary split: option.splits)

lemma roster_valid_do_tm_call: "roster_valid m \<Longrightarrow> roster_valid (do_tm_call m c)"
proof (cases c)
  case (AddAttachee n e d)
  assume "roster_valid m"
  with AddAttachee show ?thesis
    by (auto simp: roster_valid_def addAttachee_def split: sum.splits dest: new_Attachee_Inr)
next
  case (RemoveAttachee e)
  assume "roster_valid m"
  with RemoveAttachee show ?thesis
    by (simp add: roster_valid_def removeAttachee_def list_all_iff)
next
  case (AssignTaskToDivision d td dl prio)
  assume "roster_valid m"
  with AssignTaskToDivision show ?thesis
    by (auto simp: roster_valid_def assignTaskToDivision_def list_all_iff assignTask_def)
next
  case (AssignTaskToAttachee e td dl prio)
  assume "roster_valid m"
  with AssignTaskToAttachee show ?thesis
    by (auto simp: roster_valid_def assignTaskToAttachee_def assignTask_def
          split: option.splits dest!: find_ref_Some intro: list_all_update_nth)
next
  case (AddFeedbackToAttachee e ft sc rv now)
  assume "roster_valid m"
  with AddFeedbackToAttachee show ?thesis
    by (auto simp: roster_valid_def addFeedbackToAttachee_def addFeedback_def
          calculatePerformanceScore_def Let_def
          split: option.splits dest!: find_ref_Some intro: list_all_update_nth)
next
  case (OnAttachee i c')
  assume "roster_valid m"
  with OnAttachee show ?thesis
    by (auto simp: roster_valid_def division_do_call intro: list_all_update_nth)
qed

lemma roster_valid_run_tm_calls: "roster_valid m \<Longrightarrow> roster_valid (run_tm_calls m cs)"
  by (induction cs arbitrary: m) (auto intro: roster_valid_do_tm_call)

lemma reachable_divisions_valid:
  "\<forall>a \<in> set (attachees (run_tm_calls new_TaskManager cs)). division a \<in> set validDivisions"
proof -
  have "roster_valid new_TaskManager"
    by (simp add: roster_valid_def new_TaskManager_def)
  then have "roster_valid (run_tm_calls new_TaskManager cs)"
    by (rule roster_valid_run_tm_calls)
  then show ?thesis
    by (simp add: roster_valid_def list_all_iff)
qed

lemma summary_of_score: "performanceScore_s (summary_of a) = performanceScore a"
  by (simp add: summary_of_def getPerformanceSummary_def Let_def)

lemma report_step_Some:
  assumes "divisions (report_v v) (division a) = Some arr"
  shows "report_step v a =
     Inr \<lparr>report_v =
            \<lparr>divisions = (divisions (report_v v))(division a \<mapsto> arr @ [summary_of a]),
             overallStats = (overallStats (report_v v))
               \<lparr>highestScore :=
                  (if js_greater (performanceScore a) (highestScore (overallStats (report_v v)))
                   then performanceScore a else highestScore (overallStats (report_v v))),
                lowestScore :=
                  (if js_less (performanceScore a) (lowestScore (overallStats (report_v v)))
                   then performanceScore a else lowestScore (overallStats (report_v v)))\<rparr>\<rparr>,
          totalScore = js_add (totalScore v) (performanceScore a),
          count_v = count_v v + 1\<rparr>"
  using assms summary_of_score [of a]
  by (simp add: report_step_def Let_def summary_of_def)

lemma report_step_None:
  "divisions (report_v v) (division a) = None \<Longrightarrow> report_step v a = Inl TypeError"
  by (simp add: report_step_def Let_def)

lemma report_loop_result:
  assumes "\<forall>a \<in> set as. division a \<in> dom (divisions (report_v v))"
  shows "\<exists>v'. report_loop v as = Inr v'
    \<and> (\<forall>d. divisions (report_v v') d =
          map_option (\<lambda>arr. arr @ map summary_of (filter (\<lambda>a. division a = d) as))
            (divisions (report_v v) d))
    \<and> totalScore v' = foldl js_add (totalScore v) (map performanceScore as)
    \<and> count_v v' = count_v v + length as
    \<and> totalAttachees (overallStats (report_v v')) = totalAttachees (overallStats (report_v v))
    \<and> highestScore (overallStats (report_v v')) =
        foldl (\<lambda>h p. if js_greater p h then p else h)
          (highestScore (overallStats (report_v v))) (map performanceScore as)
    \<and> lowestScore (overallStats (report_v v')) =
        foldl (\<lambda>l p. if js_less p l then p else l)
          (lowestScore (overallStats (report_v v))) (map performanceScore as)"
  using assms
proof (induction as arbitrary: v)
  case Nil
  then show ?case by (simp add: option.map_ident)
next
  case (Cons a as)
  from Cons.prems obtain arr where arr: "divisions (report_v v) (division a) = Some arr"
    by auto
  define v1 where "v1 = \<lparr>report_v =
            \<lparr>divisions = (divisions (report_v v))(division a \<mapsto> arr @ [summary_of a]),
             overallStats = (overallStats (report_v v))
               \<lparr>highestScore :=
                  (if js_greater (performanceScore a) (highestScore (overallStats (report_v v)))
                   then performanceScore a else highestScore (overallStats (report_v v))),
                lowestScore :=
                  (if js_less (performanceScore a) (lowestScore (overallStats (report_v v)))
                   then performanceScore a else lowestScore (overallStats (report_v v)))\<rparr>\<rparr>,
          totalScore = js_add (totalScore v) (performanceScore a),
          count_v = count_v v + 1\<rparr>"
  have step: "report_step v a = Inr v1"
    unfolding v1_def using arr by (rule report_step_Some)
  have "\<forall>b \<in> set as. division b \<in> dom (divisions (report_v v1))"
    using Cons.prems by (auto simp: v1_def)
  from Cons.IH [OF this] obtain v' where v': "report_loop v1 as = Inr v'"
    and divs: "\<forall>d. divisions (report_v v') d =
          map_option (\<lambda>arr. arr @ map summary_of (filter (\<lambda>a. division a = d) as))
            (divisions (report_v v1) d)"
    and rest: "totalScore v' = foldl js_add (totalScore v1) (map performanceScore as)"
      "count_v v' = count_v v1 + length as"
      "totalAttachees (overallStats (report_v v')) = totalAttachees (overallStats (report_v v1))"
      "highestScore (overallStats (report_v v')) =
        foldl (\<lambda>h p. if js_greater p h then p else h)
          (highestScore (overallStats (report_v v1))) (map performanceScore as)"
      "lowestScore (overallStats (report_v v')) =
        foldl (\<lambda>l p. if js_less p l then p else l)
          (lowestScore (overallStats (report_v v1))) (map performanceScore as)"
    by blast
  have loop: "report_loop v (a # as) = Inr v'"
    using step v' by simp
  have divs': "divisions (report_v v') d =
          map_option (\<lambda>arr. arr @ map summary_of (filter (\<lambda>a. division a = d) (a # as)))
            (divisions (report_v v) d)" for d
    using divs arr by (simp add: v1_def)
  from loop divs' rest show ?case
    by (simp add: v1_def)
qed

lemma dom_initial_report: "dom (divisions (initial_report m)) = set validDivisions"
  by (auto simp: initial_report_def validDivisions_def)

lemma initial_report_division:
  "d \<in> set validDivisions \<Longrightarrow> divisions (initial_report m) d = Some []"
  by (auto simp: initial_report_def validDivisions_def)

lemma initial_report_other:
  "d \<notin> set validDivisions \<Longrightarrow> divisions (initial_report m) d = None"
  using dom_initial_report [of m] by blast

lemma generatePerformanceReport_result:
  assumes valid: "\<forall>a \<in> set (attachees m). division a \<in> set validDivisions"
  shows "\<exists>r. generatePerformanceReport m = Inr r
    \<and> (\<forall>d. divisions r d =
          (if d \<in> set validDivisions
           then Some (map summary_of (getAttacheesByDivision m d)) else None))
    \<and> totalAttachees (overallStats r) = length (attachees m)
    \<and> averageScore (overallStats r) =
        (if attachees m = [] then num 0
         else Math_round (js_div (foldl js_add (num 0) (map performanceScore (attachees m)))
                (num (int (length (attachees m))))))
    \<and> highestScore (overallStats r) =
        (if attachees m = [] then num 0
         else foldl (\<lambda>h p. if js_greater p h then p else h) (num 0)
                (map performanceScore (attachees m)))
    \<and> lowestScore (overallStats r) =
        (if attachees m = [] then num 0
         else foldl (\<lambda>l p. if js_less p l then p else l) (num 100)
                (map performanceScore (attachees m)))"
proof -
  let ?v0 = "\<lparr>report_v = initial_report m, totalScore = num 0, count_v = 0\<rparr>"
  have "\<forall>a \<in> set (attachees m). division a \<in> dom (divisions (report_v ?v0))"
    using valid by (simp add: dom_initial_report)
  from report_loop_result [OF this] obtain v where
    loop: "report_loop ?v0 (attachees m) = Inr v"
    and divs: "\<forall>d. divisions (report_v v) d =
          map_option (\<lambda>arr. arr @ map summary_of (filter (\<lambda>a. division a = d) (attachees m)))
            (divisions (initial_report m) d)"
    and total: "totalScore v = foldl js_add (num 0) (map performanceScore (attachees m))"
    and count: "count_v v = length (attachees m)"
    and n: "totalAttachees (overallStats (report_v v)) = length (attachees m)"
    and hi: "highestScore (overallStats (report_v v)) =
        foldl (\<lambda>h p. if js_greater p h then p else h) (num 0)
          (map performanceScore (attachees m))"
    and lo: "lowestScore (overallStats (report_v v)) =
        foldl (\<lambda>l p. if js_less p l then p else l) (num 100)
          (map performanceScore (attachees m))"
    by (auto simp: initial_report_def)
  have divs': "divisions (report_v v) d =
          (if d \<in> set validDivisions
           then Some (map summary_of (getAttacheesByDivision m d)) else None)" for d
    using divs by (simp add: initial_report_division initial_report_other
        getAttacheesByDivision_def)
  show ?thesis
  proof (cases "attachees m = []")
    case True
    then have "generatePerformanceReport m =
        Inr ((report_v v)\<lparr>overallStats := (overallStats (report_v v))
                     \<lparr>averageScore := num 0, highestScore := num 0,
                      lowestScore := num 0\<rparr>\<rparr>)"
      using loop count by (simp add: generatePerformanceReport_def Let_def)
    with True divs' n show ?thesis by simp
  next
    case False
    then have "generatePerformanceReport m =
        Inr ((report_v v)\<lparr>overallStats := (overallStats (report_v v))
           \<lparr>averageScore :=
              Math_round (js_div (totalScore v) (num (int (count_v v))))\<rparr>\<rparr>)"
      using loop count by (simp add: generatePerformanceReport_def Let_def)
    with False divs' n hi lo total count show ?thesis
      by simp
  qed
qed

text \<open>
  Claim C2. For a roster that is not empty the report has the number of attachees, the
  mean of their scores rounded with halves going up, the maximum of the scores as the
  highest and the minimum as the lowest score; when every score is 100 the lowest score
  is 100. The scores are those of the data model, integers from 0 to 100 (\<open>ps\<close> are the
  scores of the roster in its order), and the divisions are among the four, as the
  constructor guarantees.
\<close>

theorem overallStats_nonempty:
  assumes "attachees m \<noteq> []"
    and "\<forall>a \<in> set (attachees m). division a \<in> set validDivisions"
    and "map performanceScore (attachees m) = map num ps"
    and "scores_in_range ps"
  shows "\<exists>r. generatePerformanceReport m = Inr r
    \<and> totalAttachees (overallStats r) = length (attachees m)
    \<and> averageScore (overallStats r) = num (round_half_up (mean ps))
    \<and> highestScore (overallStats r) = num (Max (set ps))
    \<and> lowestScore (overallStats r) = num (Min (set ps))
    \<and> ((\<forall>p \<in> set ps. p = 100) \<longrightarrow> lowestScore (overallStats r) = num 100)"
proof -
  have len: "length ps = length (attachees m)"
    using assms(3) by (metis length_map)
  then have ne: "ps \<noteq> []"
    using assms(1) by auto
  have n: "0 < length ps" "length ps < 2 ^ 32"
    using ne assms(4) by (simp_all add: scores_in_range_def)
  have range: "\<forall>p \<in> set ps. 0 \<le> p \<and> p \<le> 100"
    using assms(4) by (simp add: scores_in_range_def)
  from ne obtain p0 where p0: "p0 \<in> set ps"
    by (cases ps) auto
  from generatePerformanceReport_result [OF assms(2)] assms(1) obtain r where
    r: "generatePerformanceReport m = Inr r"
      "totalAttachees (overallStats r) = length (attachees m)"
    and avg: "averageScore (overallStats r) =
        Math_round (js_div (foldl js_add (num 0) (map num ps)) (num (int (length ps))))"
    and hi: "highestScore (overallStats r) =
        foldl (\<lambda>h p. if js_greater p h then p else h) (num 0) (map num ps)"
    and lo: "lowestScore (overallStats r) =
        foldl (\<lambda>l p. if js_less p l then p else l) (num 100) (map num ps)"
    by (auto simp: assms(3) len)
  have sum: "0 \<le> sum_list ps" "sum_list ps \<le> 100 * int (length ps)"
    using sum_list_in_range [OF assms(4)] by simp_all
  have "foldl js_add (num 0) (map num ps) = num (0 + sum_list ps)"
    using range sum_list_exact [OF assms(4)] by (intro foldl_js_add_num) simp_all
  then have total: "foldl js_add (num 0) (map num ps) = num (sum_list ps)"
    by simp
  have "0 < int (length ps)"
    using n(1) by simp
  then have "100 * int (length ps) < 2 ^ 20 * int (length ps)"
    by (intro mult_strict_right_mono) simp_all
  with sum have "\<bar>sum_list ps\<bar> < 2 ^ 20 * int (length ps)"
    by linarith
  from Math_round_div_num [OF this n]
  have avg': "averageScore (overallStats r) = num (round_half_up (mean ps))"
    by (simp add: avg total mean_def)
  have "0 \<le> p0" "p0 \<le> Max (set ps)" "Min (set ps) \<le> p0" "p0 \<le> 100"
    using p0 range by auto
  then have ext: "0 \<le> Max (set ps)" "Min (set ps) \<le> 100"
    by linarith+
  have "foldl max 0 ps = Max (insert 0 (set ps))"
    by (rule foldl_max)
  also have "\<dots> = max 0 (Max (set ps))"
    using ne by simp
  also have "\<dots> = Max (set ps)"
    using ext(1) by simp
  finally have hi': "highestScore (overallStats r) = num (Max (set ps))"
    by (simp add: hi foldl_highest)
  have "foldl min 100 ps = Min (insert 100 (set ps))"
    by (rule foldl_min)
  also have "\<dots> = min 100 (Min (set ps))"
    using ne by simp
  also have "\<dots> = Min (set ps)"
    using ext(2) by simp
  finally have lo': "lowestScore (overallStats r) = num (Min (set ps))"
    by (simp add: lo foldl_lowest)
  have "lowestScore (overallStats r) = num 100" if "\<forall>p \<in> set ps. p = 100"
  proof -
    from that ne have "set ps = {100}"
      by (cases ps) auto
    then show ?thesis by (simp add: lo')
  qed
  with r avg' hi' lo' show ?thesis by blast
qed

text \<open>
  The example of the file, five attachees with the scores 95, 82, 98, 0 and 0, and a
  roster of two attachees with the score 100.
\<close>

theorem overallStats_nonempty_witness:
  "attachees (hubManager ''t1'' ''t2'' ''t3'') \<noteq> []
   \<and> map division (attachees (hubManager ''t1'' ''t2'' ''t3'')) =
       [''Engineering'', ''Engineering'', ''Tech Programs'', ''Radio Support'', ''Hub Support'']
   \<and> map performanceScore (attachees (hubManager ''t1'' ''t2'' ''t3'')) =
       map num [95, 82, 98, 0, 0]
   \<and> scores_in_range [95, 82, 98, 0, 0]
   \<and> stats_of (hubManager ''t1'' ''t2'' ''t3'') =
       Inr \<lparr>totalAttachees = 5, averageScore = num 55, highestScore = num 98,
            lowestScore = num 0\<rparr>
   \<and> map performanceScore (attachees (run_tm_calls new_TaskManager
        [AddAttachee ''Ann'' ''ann@example.com'' ''Engineering'',
         AddAttachee ''Bob'' ''bob@example.com'' ''Hub Support'',
         AddFeedbackToAttachee ''ann@example.com'' ''Perfect'' 100 ''Supervisor A'' ''t1'',
         AddFeedbackToAttachee ''bob@example.com'' ''Perfect'' 100 ''Supervisor B'' ''t2'',
         AddFeedbackToAttachee ''bob@example.com'' ''Again'' 100 ''Supervisor A'' ''t3''])) =
       map num [100, 100]
   \<and> stats_of (run_tm_calls new_TaskManager
        [AddAttachee ''Ann'' ''ann@example.com'' ''Engineering'',
         AddAttachee ''Bob'' ''bob@example.com'' ''Hub Support'',
         AddFeedbackToAttachee ''ann@example.com'' ''Perfect'' 100 ''Supervisor A'' ''t1'',
         AddFeedbackToAttachee ''bob@example.com'' ''Perfect'' 100 ''Supervisor B'' ''t2'',
         AddFeedbackToAttachee ''bob@example.com'' ''Again'' 100 ''Supervisor A'' ''t3'']) =
       Inr \<lparr>totalAttachees = 2, averageScore = num 100, highestScore = num 100,
            lowestScore = num 100\<rparr>"
proof -
  let ?m = "hubManager ''t1'' ''t2'' ''t3''"
  let ?ps = "[95, 82, 98, 0, 0] :: int list"
  have ne: "attachees ?m \<noteq> []"
    by (simp add: hubManager_value)
  have range: "scores_in_range ?ps"
    by (simp add: scores_in_range_def)
  from overallStats_nonempty [OF ne hub_valid hub_scores range] obtain r where
    r: "generatePerformanceReport ?m = Inr r"
    and n: "totalAttachees (overallStats r) = length (attachees ?m)"
    and avg: "averageScore (overallStats r) = num (round_half_up (mean ?ps))"
    and hi: "highestScore (overallStats r) = num (Max (set ?ps))"
    and lo: "lowestScore (overallStats r) = num (Min (set ?ps))"
    by blast
  have n': "totalAttachees (overallStats r) = 5"
    by (simp add: n hubManager_value)
  have avg': "averageScore (overallStats r) = num 55"
    by (simp add: avg round_half_up_def mean_def)
  have hi': "highestScore (overallStats r) = num 98"
    by (simp add: hi)
  have lo': "lowestScore (overallStats r) = num 0"
    by (simp add: lo)
  have "overallStats r =
      \<lparr>totalAttachees = 5, averageScore = num 55, highestScore = num 98,
       lowestScore = num 0\<rparr>"
    using n' avg' hi' lo' by (intro overall_stats.equality) simp_all
  with r have hub: "stats_of ?m =
       Inr \<lparr>totalAttachees = 5, averageScore = num 55, highestScore = num 98,
            lowestScore = num 0\<rparr>"
    by (simp add: stats_of_def)
  define m2 where "m2 = run_tm_calls new_TaskManager
        [AddAttachee ''Ann'' ''ann@example.com'' ''Engineering'',
         AddAttachee ''Bob'' ''bob@example.com'' ''Hub Support'',
         AddFeedbackToAttachee ''ann@example.com'' ''Perfect'' 100 ''Supervisor A'' ''t1'',
         AddFeedbackToAttachee ''bob@example.com'' ''Perfect'' 100 ''Supervisor B'' ''t2'',
         AddFeedbackToAttachee ''bob@example.com'' ''Again'' 100 ''Supervisor A'' ''t3'']"
  have scores2: "map performanceScore (attachees m2) = map num [100, 100]"
    by (simp add: m2_def eval_defs)
  then have len2: "length (attachees m2) = 2"
    by (metis length_map length_Cons list.size(3) numeral_2_eq_2)
  then have ne2: "attachees m2 \<noteq> []"
    by auto
  have valid2: "\<forall>a \<in> set (attachees m2). division a \<in> set validDivisions"
    unfolding m2_def by (rule reachable_divisions_valid)
  have range2: "scores_in_range [100, 100]"
    by (simp add: scores_in_range_def)
  from overallStats_nonempty [OF ne2 valid2 scores2 range2] obtain r2 where
    r2: "generatePerformanceReport m2 = Inr r2"
    and n2: "totalAttachees (overallStats r2) = length (attachees m2)"
    and avg2: "averageScore (overallStats r2) = num (round_half_up (mean [100, 100]))"
    and hi2: "highestScore (overallStats r2) = num (Max (set [100, 100]))"
    and lo2: "(\<forall>p \<in> set [100, 100 :: int]. p = 100) \<longrightarrow>
        lowestScore (overallStats r2) = num 100"
    by blast
  have "overallStats r2 =
      \<lparr>totalAttachees = 2, averageScore = num 100, highestScore = num 100,
       lowestScore = num 100\<rparr>"
    using n2 avg2 hi2 lo2 len2
    by (intro overall_stats.equality) (simp_all add: round_half_up_def mean_def)
  with r2 have all100: "stats_of m2 =
       Inr \<lparr>totalAttachees = 2, averageScore = num 100, highestScore = num 100,
            lowestScore = num 100\<rparr>"
    by (simp add: stats_of_def)
  from ne hub_divisions hub_scores range hub scores2 all100 show ?thesis
    unfolding m2_def by blast
qed

text \<open>
  \<^verbatim>\<open>addFeedback\<close> does not check the score. Outside the range from 0 to 100 the loop of
  the report, which starts the highest score at 0 and the lowest at 100, does not reach
  the extremes of the roster: one attachee with the score 150 has the lowest score 100,
  and one with the score -5 has the highest score 0.
\<close>

lemma unvalidated_scores_in_report:
  "stats_of (run_tm_calls new_TaskManager
       [AddAttachee ''Ann'' ''ann@example.com'' ''Engineering'',
        AddFeedbackToAttachee ''ann@example.com'' ''superb'' 150 ''Sup'' ''t1'']) =
     Inr \<lparr>totalAttachees = 1, averageScore = num 150, highestScore = num 150,
          lowestScore = num 100\<rparr>
   \<and> stats_of (run_tm_calls new_TaskManager
       [AddAttachee ''Bob'' ''bob@example.com'' ''Hub Support'',
        AddFeedbackToAttachee ''bob@example.com'' ''poor'' (- 5) ''Sup'' ''t1'']) =
     Inr \<lparr>totalAttachees = 1, averageScore = num (- 5), highestScore = num 0,
          lowestScore = num (- 5)\<rparr>"
  by (simp add: eval_defs report_defs)

text \<open>
  Claim C3. The report of a manager without attachees has the four division keys with
  empty arrays and the statistics 0, 0, 0 and 0: the lowest score starts the loop at
  100 and is reset to 0 after it.
\<close>

theorem report_empty_roster:
  assumes "attachees m = []"
  shows "lowestScore (overallStats (initial_report m)) = num 100
    \<and> generatePerformanceReport m =
     Inr \<lparr>divisions = [''Engineering'' \<mapsto> [], ''Tech Programs'' \<mapsto> [],
                         ''Radio Support'' \<mapsto> [], ''Hub Support'' \<mapsto> []],
          overallStats = \<lparr>totalAttachees = 0, averageScore = num 0, highestScore = num 0,
                           lowestScore = num 0\<rparr>\<rparr>"
proof -
  have loop: "report_loop \<lparr>report_v = initial_report m, totalScore = num 0, count_v = 0\<rparr>
      (attachees m) = Inr \<lparr>report_v = initial_report m, totalScore = num 0, count_v = 0\<rparr>"
    using assms by simp
  have seed: "lowestScore (overallStats (initial_report m)) = num 100"
    by (simp add: initial_report_def)
  have "generatePerformanceReport m =
     Inr \<lparr>divisions = [''Engineering'' \<mapsto> [], ''Tech Programs'' \<mapsto> [],
                         ''Radio Support'' \<mapsto> [], ''Hub Support'' \<mapsto> []],
          overallStats = \<lparr>totalAttachees = 0, averageScore = num 0, highestScore = num 0,
                           lowestScore = num 0\<rparr>\<rparr>"
    unfolding generatePerformanceReport_def loop
    using assms by (simp add: initial_report_def)
  with seed show ?thesis by (rule conjI)
qed

text \<open>
  The manager before any call, and a manager whose only attachee has been removed.
\<close>

theorem report_empty_roster_witness:
  "attachees new_TaskManager = []
   \<and> attachees (run_tm_calls new_TaskManager
        [AddAttachee ''Ann'' ''ann@example.com'' ''Engineering'',
         AddFeedbackToAttachee ''ann@example.com'' ''Good'' 90 ''Supervisor A'' ''t1'',
         RemoveAttachee ''ann@example.com'']) = []
   \<and> stats_of new_TaskManager =
       Inr \<lparr>totalAttachees = 0, averageScore = num 0, highestScore = num 0, lowestScore = num 0\<rparr>
   \<and> stats_of (run_tm_calls new_TaskManager
        [AddAttachee ''Ann'' ''ann@example.com'' ''Engineering'',
         AddFeedbackToAttachee ''ann@example.com'' ''Good'' 90 ''Supervisor A'' ''t1'',
         RemoveAttachee ''ann@example.com'']) =
       Inr \<lparr>totalAttachees = 0, averageScore = num 0, highestScore = num 0, lowestScore = num 0\<rparr>"
proof -
  define m where "m = run_tm_calls new_TaskManager
        [AddAttachee ''Ann'' ''ann@example.com'' ''Engineering'',
         AddFeedbackToAttachee ''ann@example.com'' ''Good'' 90 ''Supervisor A'' ''t1'',
         RemoveAttachee ''ann@example.com'']"
  have 1: "attachees new_TaskManager = []"
    by (simp add: new_TaskManager_def)
  have 2: "attachees m = []"
    by (simp add: m_def eval_defs)
  from report_empty_roster [OF 1] have 3: "stats_of new_TaskManager =
       Inr \<lparr>totalAttachees = 0, averageScore = num 0, highestScore = num 0, lowestScore = num 0\<rparr>"
    by (simp add: stats_of_def)
  from report_empty_roster [OF 2] have 4: "stats_of m =
       Inr \<lparr>totalAttachees = 0, averageScore = num 0, highestScore = num 0, lowestScore = num 0\<rparr>"
    by (simp add: stats_of_def)
  from 1 2 3 4 show ?thesis
    unfolding m_def by blast
qed

text \<open>
  Claim C4. The report has exactly the four division keys, and under a division \<open>d\<close> of
  the four the summaries of the attachees that \<^verbatim>\<open>getAttacheesByDivision\<close> returns for
  \<open>d\<close>, in the order of the roster; the array is empty when the division has no
  attachee.
\<close>

theorem report_by_division:
  assumes "\<forall>a \<in> set (attachees m). division a \<in> set validDivisions"
    and "d \<in> set validDivisions"
  shows "\<exists>r. generatePerformanceReport m = Inr r
    \<and> dom (divisions r) = set validDivisions
    \<and> divisions r d = Some (map summary_of (getAttacheesByDivision m d))
    \<and> ((\<forall>a \<in> set (attachees m). division a \<noteq> d) \<longrightarrow> divisions r d = Some [])"
proof -
  from generatePerformanceReport_result [OF assms(1)] obtain r where
    r: "generatePerformanceReport m = Inr r"
    and divs: "\<forall>d. divisions r d =
          (if d \<in> set validDivisions
           then Some (map summary_of (getAttacheesByDivision m d)) else None)"
    by blast
  have 1: "dom (divisions r) = set validDivisions"
    using divs by (auto simp: dom_def)
  have 2: "divisions r d = Some (map summary_of (getAttacheesByDivision m d))"
    using divs assms(2) by simp
  have 3: "divisions r d = Some []" if "\<forall>a \<in> set (attachees m). division a \<noteq> d"
    using that 2 by (simp add: getAttacheesByDivision_def)
  from r 1 2 3 show ?thesis by blast
qed

text \<open>
  The Engineering division of the example.
\<close>

theorem report_by_division_witness:
  "map division (attachees (hubManager ''t1'' ''t2'' ''t3'')) =
       [''Engineering'', ''Engineering'', ''Tech Programs'', ''Radio Support'', ''Hub Support'']
   \<and> ''Engineering'' \<in> set validDivisions
   \<and> (\<exists>r. generatePerformanceReport (hubManager ''t1'' ''t2'' ''t3'') = Inr r
        \<and> divisions r ''Engineering'' =
            Some [\<lparr>name_s = ''Omar Haitham'', division_s = ''Engineering'',
                    performanceScore_s = num 95, tasksAssigned = 2, tasksCompleted = 2,
                    tasksPending = 0, feedbackCount = 1\<rparr>,
                  \<lparr>name_s = ''Martin John'', division_s = ''Engineering'',
                    performanceScore_s = num 82, tasksAssigned = 2, tasksCompleted = 0,
                    tasksPending = 2, feedbackCount = 1\<rparr>])"
proof -
  let ?m = "hubManager ''t1'' ''t2'' ''t3''"
  have d: "''Engineering'' \<in> set validDivisions"
    by (simp add: validDivisions_def)
  from report_by_division [OF hub_valid d] obtain r where
    r: "generatePerformanceReport ?m = Inr r"
    and l: "divisions r ''Engineering'' =
        Some (map summary_of (getAttacheesByDivision ?m ''Engineering''))"
    by blast
  have "map summary_of (getAttacheesByDivision ?m ''Engineering'') =
      [\<lparr>name_s = ''Omar Haitham'', division_s = ''Engineering'',
                    performanceScore_s = num 95, tasksAssigned = 2, tasksCompleted = 2,
                    tasksPending = 0, feedbackCount = 1\<rparr>,
                  \<lparr>name_s = ''Martin John'', division_s = ''Engineering'',
                    performanceScore_s = num 82, tasksAssigned = 2, tasksCompleted = 0,
                    tasksPending = 2, feedbackCount = 1\<rparr>]"
    by (simp add: hubManager_value getAttacheesByDivision_def summary_of_def
        getPerformanceSummary_def Let_def)
  with r l hub_divisions d show ?thesis by auto
qed

end
